theory Spec2Isabelle
  imports Main "HOL-Library.Word"
begin

unbundle bit_operations_syntax

section \<open>Vulkan data used by the render system\<close>

text \<open>
  The engine is a thin layer over Vulkan. Each Vulkan enum is a datatype with the
  enumerators the code names and one constructor for every other value of the enum;
  each Vulkan struct is a record with the fields the code reads or writes.
\<close>

type_synonym uint32_t = "32 word"
type_synonym size_t = "64 word"
type_synonym VkBool32 = "32 word"

datatype VkFormat =
    VK_FORMAT_UNDEFINED
  | VK_FORMAT_B8G8R8A8_UNORM
  | VK_FORMAT_other nat

datatype VkColorSpaceKHR =
    VK_COLOR_SPACE_SRGB_NONLINEAR_KHR
  | VK_COLOR_SPACE_other nat

datatype VkPresentModeKHR =
    VK_PRESENT_MODE_IMMEDIATE_KHR
  | VK_PRESENT_MODE_MAILBOX_KHR
  | VK_PRESENT_MODE_FIFO_KHR
  | VK_PRESENT_MODE_FIFO_RELAXED_KHR
  | VK_PRESENT_MODE_other nat

datatype VkResult =
    VK_SUCCESS
  | VK_SUBOPTIMAL_KHR
  | VK_ERROR_OUT_OF_DATE_KHR
  | VK_RESULT_other int

record VkSurfaceFormatKHR =
  format :: VkFormat
  colorSpace :: VkColorSpaceKHR

record VkExtent2D =
  width :: uint32_t
  height :: uint32_t

record VkSurfaceCapabilitiesKHR =
  minImageCount :: uint32_t
  maxImageCount :: uint32_t
  currentExtent :: VkExtent2D
  minImageExtent :: VkExtent2D
  maxImageExtent :: VkExtent2D

record SwapChainSupportDetails =
  capabilities :: VkSurfaceCapabilitiesKHR
  formats :: "VkSurfaceFormatKHR list"
  presentModes :: "VkPresentModeKHR list"

text \<open>
  What stops the program: \<open>Abort\<close> is \<^verbatim>\<open>std::abort()\<close> (directly or through
  \<^verbatim>\<open>LOG_CRITICAL\<close>), \<open>OutOfRange\<close> is a read past the end of a \<^verbatim>\<open>std::vector\<close>
  and \<open>SignedOverflow\<close> an \<^verbatim>\<open>int\<close> computation that leaves the 32-bit range; the last
  two are undefined behaviour in the source and are kept apart from every result.
\<close>

datatype error = Abort | OutOfRange | SignedOverflow

section \<open>Swapchain parameter selection\<close>

subsection \<open>chooseSwapSurfaceFormat\<close>

definition preferredFormat :: VkSurfaceFormatKHR where
  "preferredFormat =
     \<lparr>format = VK_FORMAT_B8G8R8A8_UNORM, colorSpace = VK_COLOR_SPACE_SRGB_NONLINEAR_KHR\<rparr>"

text \<open>The range-for of \<^verbatim>\<open>chooseSwapSurfaceFormat\<close>: the first entry with the preferred pair.\<close>

fun formatLoop :: "VkSurfaceFormatKHR list \<Rightarrow> VkSurfaceFormatKHR option" where
  "formatLoop [] = None"
| "formatLoop (availableFormat # rest) =
     (if format availableFormat = VK_FORMAT_B8G8R8A8_UNORM
         \<and> colorSpace availableFormat = VK_COLOR_SPACE_SRGB_NONLINEAR_KHR
      then Some availableFormat
      else formatLoop rest)"

definition chooseSwapSurfaceFormat :: "VkSurfaceFormatKHR list \<Rightarrow> error + VkSurfaceFormatKHR" where
  "chooseSwapSurfaceFormat availableFormats =
     (if length availableFormats = 1 \<and> format (availableFormats ! 0) = VK_FORMAT_UNDEFINED
      then Inr preferredFormat
      else case formatLoop availableFormats of
             Some availableFormat \<Rightarrow> Inr availableFormat
           | None \<Rightarrow> (case availableFormats of
                         [] \<Rightarrow> Inl OutOfRange
                       | first # _ \<Rightarrow> Inr first))"

subsection \<open>chooseSwapPresentMode\<close>

text \<open>The loop carries \<^verbatim>\<open>bestMode\<close>; meeting mailbox returns at once.\<close>

fun presentModeLoop :: "VkPresentModeKHR list \<Rightarrow> VkPresentModeKHR \<Rightarrow> VkPresentModeKHR" where
  "presentModeLoop [] bestMode = bestMode"
| "presentModeLoop (availablePresentMode # rest) bestMode =
     (if availablePresentMode = VK_PRESENT_MODE_MAILBOX_KHR then availablePresentMode
      else presentModeLoop rest
             (if availablePresentMode = VK_PRESENT_MODE_IMMEDIATE_KHR
              then availablePresentMode else bestMode))"

definition chooseSwapPresentMode :: "VkPresentModeKHR list \<Rightarrow> VkPresentModeKHR" where
  "chooseSwapPresentMode availablePresentModes =
     presentModeLoop availablePresentModes VK_PRESENT_MODE_FIFO_KHR"

subsection \<open>chooseSwapExtent\<close>

text \<open>
  The desired width and height (the parameters \<open>w\<close> and \<open>h\<close>) arrive as
  \<^verbatim>\<open>std::size_t\<close> and are stored into the 32-bit fields of a \<^verbatim>\<open>VkExtent2D\<close> before
  clamping (\<open>ucast\<close> keeps the low 32 bits, so a size below \<open>2 ^ 32\<close> is unchanged);
  \<^verbatim>\<open>std::numeric_limits<uint32_t>::max()\<close> is \<open>0xFFFFFFFF\<close>.
\<close>

definition chooseSwapExtent :: "VkSurfaceCapabilitiesKHR \<Rightarrow> size_t \<Rightarrow> size_t \<Rightarrow> VkExtent2D" where
  "chooseSwapExtent caps w h =
     (if width (currentExtent caps) \<noteq> 0xFFFFFFFF then currentExtent caps
      else
        let actualExtent = \<lparr>width = ucast w, height = ucast h\<rparr>;
            actualExtent = actualExtent\<lparr>width :=
              max (width (minImageExtent caps))
                  (min (width (maxImageExtent caps)) (width actualExtent))\<rparr>;
            actualExtent = actualExtent\<lparr>height :=
              max (height (minImageExtent caps))
                  (min (height (maxImageExtent caps)) (height actualExtent))\<rparr>
        in actualExtent)"

subsection \<open>The image count requested by createSwapChain\<close>

definition requestedImageCount :: "VkSurfaceCapabilitiesKHR \<Rightarrow> uint32_t" where
  "requestedImageCount caps =
     (let imageCount = minImageCount caps + 1
      in if maxImageCount caps > 0 \<and> imageCount > maxImageCount caps
         then maxImageCount caps else imageCount)"


text \<open>Reports used as concrete inputs below.\<close>

definition caps_2_2 :: VkSurfaceCapabilitiesKHR where
  "caps_2_2 = \<lparr>minImageCount = 2, maxImageCount = 2,
     currentExtent = \<lparr>width = 0xFFFFFFFF, height = 0xFFFFFFFF\<rparr>,
     minImageExtent = \<lparr>width = 1, height = 1\<rparr>,
     maxImageExtent = \<lparr>width = 4096, height = 2160\<rparr>\<rparr>"

definition caps_2_3 :: VkSurfaceCapabilitiesKHR where
  "caps_2_3 = \<lparr>minImageCount = 2, maxImageCount = 3,
     currentExtent = \<lparr>width = 800, height = 600\<rparr>,
     minImageExtent = \<lparr>width = 800, height = 600\<rparr>,
     maxImageExtent = \<lparr>width = 800, height = 600\<rparr>\<rparr>"

section \<open>Physical device selection\<close>

text \<open>
  A \<open>VkPhysicalDevice\<close> value holds what the driver answers to the queries that
  \<^verbatim>\<open>isDeviceSuitable\<close> makes for that handle and the surface: each queue family with the
  answer of \<^verbatim>\<open>vkGetPhysicalDeviceSurfaceSupportKHR\<close> for its index, the extension names,
  the surface capabilities, formats and present modes, and the anisotropy feature.
  \<^verbatim>\<open>VK_NULL_HANDLE\<close> is \<open>None\<close>.
\<close>

record VkQueueFamilyProperties =
  queueFlags :: "32 word"
  queueCount :: uint32_t

definition VK_QUEUE_GRAPHICS_BIT :: "32 word" where
  "VK_QUEUE_GRAPHICS_BIT = 0x00000001"

definition VK_KHR_SWAPCHAIN_EXTENSION_NAME :: string where
  "VK_KHR_SWAPCHAIN_EXTENSION_NAME = ''VK_KHR_swapchain''"

record VkPhysicalDevice =
  queueFamilies :: "(VkQueueFamilyProperties \<times> VkBool32) list"
  extensionNames :: "string list"
  surfaceCapabilities :: VkSurfaceCapabilitiesKHR
  surfaceFormats :: "VkSurfaceFormatKHR list"
  surfacePresentModes :: "VkPresentModeKHR list"
  samplerAnisotropy :: VkBool32

record QueueFamilyIndices =
  graphicsFamily :: int
  presentFamily :: int

definition isComplete :: "QueueFamilyIndices \<Rightarrow> bool" where
  "isComplete indices \<longleftrightarrow> graphicsFamily indices \<ge> 0 \<and> presentFamily indices \<ge> 0"

definition m_deviceExtensions :: "string list" where
  "m_deviceExtensions = [VK_KHR_SWAPCHAIN_EXTENSION_NAME]"

text \<open>
  The loop of \<^verbatim>\<open>findQueueFamilies\<close>, with the counter \<^verbatim>\<open>i\<close> and the indices found so
  far; it stops as soon as both indices are set.
\<close>

fun findQueueFamiliesLoop ::
  "(VkQueueFamilyProperties \<times> VkBool32) list \<Rightarrow> int \<Rightarrow> QueueFamilyIndices \<Rightarrow> QueueFamilyIndices"
where
  "findQueueFamiliesLoop [] i indices = indices"
| "findQueueFamiliesLoop ((queueFamily, presentSupport) # rest) i indices =
     (let indices =
            (if queueCount queueFamily > 0 \<and> queueFlags queueFamily AND VK_QUEUE_GRAPHICS_BIT \<noteq> 0
             then indices\<lparr>graphicsFamily := i\<rparr> else indices);
          indices =
            (if queueCount queueFamily > 0 \<and> presentSupport \<noteq> 0
             then indices\<lparr>presentFamily := i\<rparr> else indices)
      in if isComplete indices then indices
         else findQueueFamiliesLoop rest (i + 1) indices)"

definition findQueueFamilies :: "VkPhysicalDevice \<Rightarrow> QueueFamilyIndices" where
  "findQueueFamilies device =
     findQueueFamiliesLoop (queueFamilies device) 0 \<lparr>graphicsFamily = - 1, presentFamily = - 1\<rparr>"

text \<open>
  \<^verbatim>\<open>checkDeviceExtensionSupport\<close>: the \<^verbatim>\<open>std::set\<close> of required names is a duplicate-free
  list; every available name is erased from it and the rest must be empty.
\<close>

definition checkDeviceExtensionSupport :: "VkPhysicalDevice \<Rightarrow> bool" where
  "checkDeviceExtensionSupport device =
     (let requiredExtensions = remdups m_deviceExtensions;
          requiredExtensions =
            fold (\<lambda>extension required. removeAll extension required)
                 (extensionNames device) requiredExtensions
      in requiredExtensions = [])"

definition querySwapChainSupport :: "VkPhysicalDevice \<Rightarrow> SwapChainSupportDetails" where
  "querySwapChainSupport device =
     \<lparr>capabilities = surfaceCapabilities device,
      formats = surfaceFormats device,
      presentModes = surfacePresentModes device\<rparr>"

definition isDeviceSuitable :: "VkPhysicalDevice \<Rightarrow> bool" where
  "isDeviceSuitable device =
     (let indices = findQueueFamilies device;
          extensionsSupported = checkDeviceExtensionSupport device;
          swapChainAdequate =
            (if extensionsSupported
             then (let swapChainSupport = querySwapChainSupport device
                   in formats swapChainSupport \<noteq> [] \<and> presentModes swapChainSupport \<noteq> [])
             else False)
      in isComplete indices \<and> extensionsSupported \<and> swapChainAdequate
         \<and> samplerAnisotropy device \<noteq> 0)"

text \<open>
  \<^verbatim>\<open>pickPhysicalDevice\<close>: the loop assigns the first suitable device and breaks; the
  second argument is the member \<^verbatim>\<open>m_physicalDevice\<close>, \<^verbatim>\<open>VK_NULL_HANDLE\<close> in a new
  render system.
\<close>

fun pickLoop :: "VkPhysicalDevice list \<Rightarrow> VkPhysicalDevice option \<Rightarrow> VkPhysicalDevice option" where
  "pickLoop [] m_physicalDevice = m_physicalDevice"
| "pickLoop (device # rest) m_physicalDevice =
     (if isDeviceSuitable device then Some device else pickLoop rest m_physicalDevice)"

definition pickPhysicalDevice ::
  "VkPhysicalDevice list \<Rightarrow> VkPhysicalDevice option \<Rightarrow> error + VkPhysicalDevice"
where
  "pickPhysicalDevice devices m_physicalDevice =
     (if length devices = 0 then Inl Abort
      else case pickLoop devices m_physicalDevice of
             None \<Rightarrow> Inl Abort
           | Some device \<Rightarrow> Inr device)"

text \<open>A queue family with at least one queue that supports graphics, or presentation.\<close>

definition hasGraphics :: "VkQueueFamilyProperties \<times> VkBool32 \<Rightarrow> bool" where
  "hasGraphics f \<longleftrightarrow> queueCount (fst f) > 0 \<and> queueFlags (fst f) AND VK_QUEUE_GRAPHICS_BIT \<noteq> 0"

definition hasPresent :: "VkQueueFamilyProperties \<times> VkBool32 \<Rightarrow> bool" where
  "hasPresent f \<longleftrightarrow> queueCount (fst f) > 0 \<and> snd f \<noteq> 0"

text \<open>Devices used as concrete inputs below.\<close>

definition goodDevice :: VkPhysicalDevice where
  "goodDevice =
     \<lparr>queueFamilies = [(\<lparr>queueFlags = 4, queueCount = 1\<rparr>, 0),
                        (\<lparr>queueFlags = 3, queueCount = 16\<rparr>, 0),
                        (\<lparr>queueFlags = 2, queueCount = 2\<rparr>, 1)],
      extensionNames = [''VK_KHR_maintenance1'', ''VK_KHR_swapchain''],
      surfaceCapabilities = caps_2_3,
      surfaceFormats = [preferredFormat],
      surfacePresentModes = [VK_PRESENT_MODE_FIFO_KHR],
      samplerAnisotropy = 1\<rparr>"

definition noPresentDevice :: VkPhysicalDevice where
  "noPresentDevice = goodDevice\<lparr>queueFamilies := [(\<lparr>queueFlags = 3, queueCount = 16\<rparr>, 0)]\<rparr>"

definition noSwapchainDevice :: VkPhysicalDevice where
  "noSwapchainDevice = goodDevice\<lparr>extensionNames := [''VK_KHR_maintenance1'']\<rparr>"

definition secondGoodDevice :: VkPhysicalDevice where
  "secondGoodDevice = goodDevice\<lparr>surfaceCapabilities := caps_2_2\<rparr>"

section \<open>The frame loop\<close>

text \<open>
  The render system's members that the loop reads or writes: the parameters the live
  swapchain was created with (standing for the handle \<^verbatim>\<open>m_swapChain\<close>), its image format
  and its extent.
\<close>

record VkSwapchainCreateInfoKHR =
  ci_minImageCount :: uint32_t
  ci_imageFormat :: VkFormat
  ci_imageColorSpace :: VkColorSpaceKHR
  ci_imageExtent :: VkExtent2D
  ci_presentMode :: VkPresentModeKHR

record RenderSystem =
  m_swapChain :: VkSwapchainCreateInfoKHR
  m_swapChainImageFormat :: VkFormat
  m_swapChainExtent :: VkExtent2D

text \<open>
  What one iteration receives from outside: the resize flag and window size of the
  \<^verbatim>\<open>Input\<close> singleton (\<^verbatim>\<open>ShouldResize\<close>, \<^verbatim>\<open>GetWidth\<close>, \<^verbatim>\<open>GetHeight\<close>; the sizes are passed
  on as \<^verbatim>\<open>std::size_t\<close>), the surface report of \<^verbatim>\<open>querySwapChainSupport\<close>, and the results
  of the Vulkan calls: one for the object creations inside \<^verbatim>\<open>recreateSwapChain\<close> (each of
  them is fatal unless it succeeds), and those of acquire, submit and present.
\<close>

record FrameEnv =
  shouldResize :: bool
  inputWidth :: size_t
  inputHeight :: size_t
  supportDetails :: SwapChainSupportDetails
  createResult :: VkResult
  acquireResult :: VkResult
  submitResult :: VkResult
  presentResult :: VkResult

text \<open>
  The calls of one iteration, in the order they are made. \<open>UpdateUniformBuffer\<close> carries
  the swapchain extent whose aspect ratio enters the projection matrix.
\<close>

datatype call =
    PollEvents
  | UpdateUniformBuffer VkExtent2D
  | RecreateSwapChain
  | AcquireNextImage
  | QueueSubmit
  | QueuePresent
  | QueueWaitIdle
  | StdAbort

text \<open>
  \<^verbatim>\<open>createSwapChain\<close>: the selected parameters go into the create info and, when
  \<^verbatim>\<open>vkCreateSwapchainKHR\<close> succeeds, into the members. The remaining fields of the create
  info are constants or queue family indices.
\<close>

definition createSwapChain ::
  "SwapChainSupportDetails \<Rightarrow> size_t \<Rightarrow> size_t \<Rightarrow> VkResult \<Rightarrow> RenderSystem \<Rightarrow> error + RenderSystem"
where
  "createSwapChain swapChainSupport w h vkCreateSwapchainKHR s =
     (case chooseSwapSurfaceFormat (formats swapChainSupport) of
        Inl e \<Rightarrow> Inl e
      | Inr surfaceFormat \<Rightarrow>
          let presentMode = chooseSwapPresentMode (presentModes swapChainSupport);
              extent = chooseSwapExtent (capabilities swapChainSupport) w h;
              imageCount = requestedImageCount (capabilities swapChainSupport);
              createInfo = \<lparr>ci_minImageCount = imageCount,
                            ci_imageFormat = format surfaceFormat,
                            ci_imageColorSpace = colorSpace surfaceFormat,
                            ci_imageExtent = extent,
                            ci_presentMode = presentMode\<rparr>
          in if vkCreateSwapchainKHR \<noteq> VK_SUCCESS then Inl Abort
             else Inr (s\<lparr>m_swapChain := createInfo,
                         m_swapChainImageFormat := format surfaceFormat,
                         m_swapChainExtent := extent\<rparr>))"

text \<open>
  \<^verbatim>\<open>recreateSwapChain\<close> waits for the device, destroys the swapchain objects and creates
  them again, \<^verbatim>\<open>createSwapChain\<close> first; of the members kept here only that call writes.
\<close>

definition recreateSwapChain :: "FrameEnv \<Rightarrow> RenderSystem \<Rightarrow> error + RenderSystem" where
  "recreateSwapChain env s =
     createSwapChain (supportDetails env) (inputWidth env) (inputHeight env) (createResult env) s"

text \<open>
  \<^verbatim>\<open>RenderSystem::update\<close>: the calls made and the render system afterwards, \<open>None\<close> when
  the process has stopped.
\<close>

definition update :: "FrameEnv \<Rightarrow> RenderSystem \<Rightarrow> call list \<times> RenderSystem option" where
  "update env s =
     (let t = [UpdateUniformBuffer (m_swapChainExtent s)];
          (t, r) =
            (if shouldResize env \<and> inputWidth env > 0 \<and> inputHeight env > 0
             then (t @ [RecreateSwapChain], recreateSwapChain env s)
             else (t, Inr s))
      in case r of
           Inl e \<Rightarrow> (t @ [StdAbort], None)
         | Inr s \<Rightarrow>
             let t = t @ [AcquireNextImage]; result = acquireResult env
             in if result = VK_ERROR_OUT_OF_DATE_KHR then
                  (case recreateSwapChain env s of
                     Inl e \<Rightarrow> (t @ [RecreateSwapChain, StdAbort], None)
                   | Inr s \<Rightarrow> (t @ [RecreateSwapChain], Some s))
                else if result \<noteq> VK_SUCCESS \<and> result \<noteq> VK_SUBOPTIMAL_KHR then
                  (t @ [StdAbort], None)
                else
                  let t = t @ [QueueSubmit]
                  in if submitResult env \<noteq> VK_SUCCESS then (t @ [StdAbort], None)
                     else
                       let t = t @ [QueuePresent]; result = presentResult env
                       in if result = VK_ERROR_OUT_OF_DATE_KHR \<or> result = VK_SUBOPTIMAL_KHR then
                            (case recreateSwapChain env s of
                               Inl e \<Rightarrow> (t @ [RecreateSwapChain, StdAbort], None)
                             | Inr s \<Rightarrow> (t @ [RecreateSwapChain, QueueWaitIdle], Some s))
                          else if result \<noteq> VK_SUCCESS then (t @ [StdAbort], None)
                          else (t @ [QueueWaitIdle], Some s))"

text \<open>The body of the loop in \<^verbatim>\<open>SolEngine::update\<close>: poll the events, then update.\<close>

definition frameIteration :: "FrameEnv \<Rightarrow> RenderSystem \<Rightarrow> call list \<times> RenderSystem option" where
  "frameIteration env s = (case update env s of (t, r) \<Rightarrow> (PollEvents # t, r))"

text \<open>A render system and environments used as concrete inputs below.\<close>

definition liveSystem :: RenderSystem where
  "liveSystem =
     \<lparr>m_swapChain = \<lparr>ci_minImageCount = 3, ci_imageFormat = VK_FORMAT_B8G8R8A8_UNORM,
                      ci_imageColorSpace = VK_COLOR_SPACE_SRGB_NONLINEAR_KHR,
                      ci_imageExtent = \<lparr>width = 1280, height = 720\<rparr>,
                      ci_presentMode = VK_PRESENT_MODE_FIFO_KHR\<rparr>,
      m_swapChainImageFormat = VK_FORMAT_B8G8R8A8_UNORM,
      m_swapChainExtent = \<lparr>width = 1280, height = 720\<rparr>\<rparr>"

definition quietEnv :: FrameEnv where
  "quietEnv =
     \<lparr>shouldResize = False, inputWidth = 1280, inputHeight = 720,
      supportDetails = \<lparr>capabilities = caps_2_3, formats = [preferredFormat],
                         presentModes = [VK_PRESENT_MODE_FIFO_KHR]\<rparr>,
      createResult = VK_SUCCESS, acquireResult = VK_SUCCESS,
      submitResult = VK_SUCCESS, presentResult = VK_SUCCESS\<rparr>"

definition resizedSystem :: RenderSystem where
  "resizedSystem =
     \<lparr>m_swapChain = \<lparr>ci_minImageCount = 3, ci_imageFormat = VK_FORMAT_B8G8R8A8_UNORM,
                      ci_imageColorSpace = VK_COLOR_SPACE_SRGB_NONLINEAR_KHR,
                      ci_imageExtent = \<lparr>width = 800, height = 600\<rparr>,
                      ci_presentMode = VK_PRESENT_MODE_FIFO_KHR\<rparr>,
      m_swapChainImageFormat = VK_FORMAT_B8G8R8A8_UNORM,
      m_swapChainExtent = \<lparr>width = 800, height = 600\<rparr>\<rparr>"

definition outOfDateEnv :: FrameEnv where
  "outOfDateEnv = quietEnv\<lparr>acquireResult := VK_ERROR_OUT_OF_DATE_KHR\<rparr>"

definition deviceLostEnv :: FrameEnv where
  "deviceLostEnv = quietEnv\<lparr>acquireResult := VK_RESULT_other (- 4)\<rparr>"

definition suboptimalEnv :: FrameEnv where
  "suboptimalEnv = quietEnv\<lparr>presentResult := VK_SUBOPTIMAL_KHR\<rparr>"

definition resizeEnv :: FrameEnv where
  "resizeEnv = quietEnv\<lparr>shouldResize := True, inputWidth := 800, inputHeight := 600\<rparr>"

text \<open>The calls of an iteration up to the acquire.\<close>

definition beforeAcquire :: "FrameEnv \<Rightarrow> RenderSystem \<Rightarrow> call list" where
  "beforeAcquire env s =
     [PollEvents, UpdateUniformBuffer (m_swapChainExtent s)]
     @ (if shouldResize env \<and> inputWidth env > 0 \<and> inputHeight env > 0
        then [RecreateSwapChain] else [])"

section \<open>Mesh loading\<close>

text \<open>
  \<^verbatim>\<open>Mesh::loadModel\<close> uses of a \<^verbatim>\<open>float\<close> only the constant \<^verbatim>\<open>1.0f\<close>, the difference
  \<^verbatim>\<open>1.0f - t\<close> and the comparison \<^verbatim>\<open>==\<close>, so the scalar type is a parameter \<open>'a\<close> with
  \<open>1\<close> and \<open>-\<close>; its equality stands for \<^verbatim>\<open>==\<close>, which is exact field equality on every
  value that is not a NaN. \<^verbatim>\<open>glm::vec3\<close> and \<^verbatim>\<open>glm::vec2\<close> are tuples.
\<close>

record 'a Vertex =
  pos :: "'a \<times> 'a \<times> 'a"
  color :: "'a \<times> 'a \<times> 'a"
  texCoord :: "'a \<times> 'a"

record 'a Mesh =
  vertices :: "'a Vertex list"
  indices :: "uint32_t list"

text \<open>The parts of tinyobj's \<^verbatim>\<open>attrib_t\<close>, \<^verbatim>\<open>index_t\<close> and \<^verbatim>\<open>shape_t\<close> that are read.\<close>

record 'a attrib_t =
  attrib_vertices :: "'a list"
  attrib_texcoords :: "'a list"

record index_t =
  vertex_index :: int
  normal_index :: int
  texcoord_index :: int

record shape_t =
  mesh_indices :: "index_t list"

text \<open>
  \<^verbatim>\<open>v[k * index + off]\<close> on a \<^verbatim>\<open>std::vector\<close> with \<^verbatim>\<open>int\<close> arithmetic: the position must
  stay in the \<^verbatim>\<open>int\<close> range and inside the vector.
\<close>

definition vectorAt :: "'a list \<Rightarrow> int \<Rightarrow> error + 'a" where
  "vectorAt v i =
     (if i < - (2 ^ 31) \<or> 2 ^ 31 \<le> i then Inl SignedOverflow
      else if 0 \<le> i \<and> i < int (length v) then Inr (v ! nat i)
      else Inl OutOfRange)"

definition makeVertex :: "('a::{one,minus}) attrib_t \<Rightarrow> index_t \<Rightarrow> error + 'a Vertex" where
  "makeVertex attrib index =
     (case vectorAt (attrib_vertices attrib) (3 * vertex_index index + 0) of Inl e \<Rightarrow> Inl e | Inr x \<Rightarrow>
      case vectorAt (attrib_vertices attrib) (3 * vertex_index index + 1) of Inl e \<Rightarrow> Inl e | Inr y \<Rightarrow>
      case vectorAt (attrib_vertices attrib) (3 * vertex_index index + 2) of Inl e \<Rightarrow> Inl e | Inr z \<Rightarrow>
      case vectorAt (attrib_texcoords attrib) (2 * texcoord_index index + 0) of Inl e \<Rightarrow> Inl e | Inr u \<Rightarrow>
      case vectorAt (attrib_texcoords attrib) (2 * texcoord_index index + 1) of Inl e \<Rightarrow> Inl e | Inr v \<Rightarrow>
        Inr \<lparr>pos = (x, y, z), color = (1, 1, 1), texCoord = (u, 1 - v)\<rparr>)"

text \<open>
  The \<^verbatim>\<open>std::unordered_map\<close> from vertices to indices is a map; \<^verbatim>\<open>operator[]\<close> used as a
  read inserts the value 0 for a key that is absent.
\<close>

type_synonym 'a loadState = "'a Vertex list \<times> uint32_t list \<times> ('a Vertex \<rightharpoonup> uint32_t)"

definition subscript :: "('k \<rightharpoonup> uint32_t) \<Rightarrow> 'k \<Rightarrow> uint32_t \<times> ('k \<rightharpoonup> uint32_t)" where
  "subscript m k = (case m k of Some v \<Rightarrow> (v, m) | None \<Rightarrow> (0, m(k \<mapsto> 0)))"

text \<open>
  The body of the inner loop after the vertex has been built; \<open>verts\<close> and \<open>inds\<close> are
  the local vectors \<^verbatim>\<open>vertices\<close> and \<^verbatim>\<open>indices\<close>.
\<close>

definition addVertex :: "'a Vertex \<Rightarrow> 'a loadState \<Rightarrow> 'a loadState" where
  "addVertex vertex st =
     (case st of (verts, inds, uniqueVertices) \<Rightarrow>
        let (verts, uniqueVertices) =
              (if uniqueVertices vertex = None
               then (verts @ [vertex], uniqueVertices(vertex \<mapsto> of_nat (length verts)))
               else (verts, uniqueVertices));
            (i, uniqueVertices) = subscript uniqueVertices vertex
        in (verts, inds @ [i], uniqueVertices))"

fun indexLoop :: "('a::{one,minus}) attrib_t \<Rightarrow> index_t list \<Rightarrow> 'a loadState \<Rightarrow> error + 'a loadState" where
  "indexLoop attrib [] st = Inr st"
| "indexLoop attrib (index # rest) st =
     (case makeVertex attrib index of
        Inl e \<Rightarrow> Inl e
      | Inr vertex \<Rightarrow> indexLoop attrib rest (addVertex vertex st))"

fun shapeLoop :: "('a::{one,minus}) attrib_t \<Rightarrow> shape_t list \<Rightarrow> 'a loadState \<Rightarrow> error + 'a loadState" where
  "shapeLoop attrib [] st = Inr st"
| "shapeLoop attrib (shape # rest) st =
     (case indexLoop attrib (mesh_indices shape) st of
        Inl e \<Rightarrow> Inl e
      | Inr st \<Rightarrow> shapeLoop attrib rest st)"

text \<open>
  \<^verbatim>\<open>Mesh::loadModel\<close>, from the answer of \<^verbatim>\<open>tinyobj::LoadObj\<close>: its return value and the
  attributes and shapes it has filled in.
\<close>

definition loadModel :: "bool \<Rightarrow> ('a::{one,minus}) attrib_t \<Rightarrow> shape_t list \<Rightarrow> error + 'a Mesh" where
  "loadModel loadObj attrib shapes =
     (if \<not> loadObj then Inl Abort
      else case shapeLoop attrib shapes ([], [], Map.empty) of
             Inl e \<Rightarrow> Inl e
           | Inr (verts, inds, uniqueVertices) \<Rightarrow>
               Inr \<lparr>vertices = verts, indices = inds\<rparr>)"

text \<open>All face corners of a model, in loading order.\<close>

definition faceCorners :: "shape_t list \<Rightarrow> index_t list" where
  "faceCorners shapes = concat (map mesh_indices shapes)"

text \<open>
  The invariant of loading, for the vertices \<open>seen\<close> so far: the output vertices
  are the distinct seen ones, the map knows exactly them, every stored index points into
  the output (at the vertex it is stored for, as long as the count fits 32 bits), and the
  output indices are the stored indices of the seen vertices.
\<close>

definition deduplicated :: "'a Vertex list \<Rightarrow> 'a loadState \<Rightarrow> bool" where
  "deduplicated seen st =
     (case st of (verts, inds, uniqueVertices) \<Rightarrow>
        distinct verts \<and> set verts = set seen \<and> dom uniqueVertices = set verts
        \<and> (\<forall>v i. uniqueVertices v = Some i \<longrightarrow>
              unat i < length verts \<and> (length verts \<le> 2 ^ 32 \<longrightarrow> verts ! unat i = v))
        \<and> inds = map (\<lambda>v. the (uniqueVertices v)) seen)"

text \<open>
  A model used as a concrete input below: a unit square of four points, as two triangles
  that share an edge.
\<close>

definition squareAttrib :: "int attrib_t" where
  "squareAttrib =
     \<lparr>attrib_vertices = [0, 0, 0,  1, 0, 0,  0, 1, 0,  1, 1, 0],
      attrib_texcoords = [0, 0,  1, 0,  0, 1,  1, 1]\<rparr>"

definition corner :: "int \<Rightarrow> index_t" where
  "corner k = \<lparr>vertex_index = k, normal_index = - 1, texcoord_index = k\<rparr>"

definition squareShapes :: "shape_t list" where
  "squareShapes =
     [\<lparr>mesh_indices = [corner 0, corner 1, corner 2]\<rparr>,
      \<lparr>mesh_indices = [corner 2, corner 1, corner 3]\<rparr>]"

definition squareVertex :: "int \<Rightarrow> int \<Rightarrow> int Vertex" where
  "squareVertex x y = \<lparr>pos = (x, y, 0), color = (1, 1, 1), texCoord = (x, 1 - y)\<rparr>"

definition squareMesh :: "int Mesh" where
  "squareMesh =
     \<lparr>vertices = [squareVertex 0 0, squareVertex 1 0, squareVertex 0 1, squareVertex 1 1],
      indices = [0, 1, 2, 2, 1, 3]\<rparr>"

definition squareCorners :: "int Vertex list" where
  "squareCorners =
     [squareVertex 0 0, squareVertex 1 0, squareVertex 0 1,
      squareVertex 0 1, squareVertex 1 0, squareVertex 1 1]"

section \<open>Properties of the selection functions\<close>

subsection \<open>Present mode\<close>

lemma presentModeLoop_mailbox:
  "VK_PRESENT_MODE_MAILBOX_KHR \<in> set ms \<Longrightarrow> presentModeLoop ms b = VK_PRESENT_MODE_MAILBOX_KHR"
  by (induction ms arbitrary: b) auto

lemma presentModeLoop_immediate:
  "VK_PRESENT_MODE_MAILBOX_KHR \<notin> set ms \<Longrightarrow>
   presentModeLoop ms b =
     (if VK_PRESENT_MODE_IMMEDIATE_KHR \<in> set ms then VK_PRESENT_MODE_IMMEDIATE_KHR else b)"
  by (induction ms arbitrary: b) auto

text \<open>
  Claim C5. Present-mode selection returns mailbox when mailbox is anywhere in the list,
  immediate when mailbox is absent and immediate is present, and FIFO otherwise.
\<close>

theorem chooseSwapPresentMode_priority:
  "chooseSwapPresentMode ms =
     (if VK_PRESENT_MODE_MAILBOX_KHR \<in> set ms then VK_PRESENT_MODE_MAILBOX_KHR
      else if VK_PRESENT_MODE_IMMEDIATE_KHR \<in> set ms then VK_PRESENT_MODE_IMMEDIATE_KHR
      else VK_PRESENT_MODE_FIFO_KHR)"
  by (simp add: chooseSwapPresentMode_def presentModeLoop_mailbox presentModeLoop_immediate)

theorem chooseSwapPresentMode_priority_witness:
  "chooseSwapPresentMode
     [VK_PRESENT_MODE_FIFO_KHR, VK_PRESENT_MODE_IMMEDIATE_KHR, VK_PRESENT_MODE_MAILBOX_KHR]
     = VK_PRESENT_MODE_MAILBOX_KHR
   \<and> chooseSwapPresentMode [VK_PRESENT_MODE_IMMEDIATE_KHR, VK_PRESENT_MODE_FIFO_RELAXED_KHR]
     = VK_PRESENT_MODE_IMMEDIATE_KHR
   \<and> chooseSwapPresentMode [VK_PRESENT_MODE_FIFO_RELAXED_KHR] = VK_PRESENT_MODE_FIFO_KHR
   \<and> chooseSwapPresentMode [] = VK_PRESENT_MODE_FIFO_KHR"
  using chooseSwapPresentMode_priority
          [of "[VK_PRESENT_MODE_FIFO_KHR, VK_PRESENT_MODE_IMMEDIATE_KHR, VK_PRESENT_MODE_MAILBOX_KHR]"]
        chooseSwapPresentMode_priority
          [of "[VK_PRESENT_MODE_IMMEDIATE_KHR, VK_PRESENT_MODE_FIFO_RELAXED_KHR]"]
        chooseSwapPresentMode_priority [of "[VK_PRESENT_MODE_FIFO_RELAXED_KHR]"]
        chooseSwapPresentMode_priority [of "[]"]
  by simp

subsection \<open>Surface format\<close>

lemma formatLoop_Some: "formatLoop fs = Some f \<Longrightarrow> f = preferredFormat \<and> f \<in> set fs"
  by (induction fs) (auto simp: preferredFormat_def split: if_splits)

lemma formatLoop_None: "formatLoop fs = None \<longleftrightarrow> preferredFormat \<notin> set fs"
  by (induction fs) (auto simp: preferredFormat_def)

text \<open>
  Claim C4. A list that contains the preferred BGRA/sRGB pair yields exactly that pair; a
  one-element list whose entry has the undefined format yields the preferred pair; any
  other list yields its first entry (the list is not empty there: a first entry exists).
\<close>

theorem chooseSwapSurfaceFormat_spec:
  "(preferredFormat \<in> set fs \<longrightarrow> chooseSwapSurfaceFormat fs = Inr preferredFormat)
   \<and> (fs = [f] \<and> format f = VK_FORMAT_UNDEFINED \<longrightarrow>
        chooseSwapSurfaceFormat fs = Inr preferredFormat)
   \<and> (preferredFormat \<notin> set fs \<and> \<not> (length fs = 1 \<and> format (hd fs) = VK_FORMAT_UNDEFINED)
        \<and> fs \<noteq> [] \<longrightarrow> chooseSwapSurfaceFormat fs = Inr (hd fs))"
proof (intro conjI impI)
  assume p: "preferredFormat \<in> set fs"
  then obtain g where g: "formatLoop fs = Some g"
    using formatLoop_None [of fs] by (cases "formatLoop fs") auto
  have "\<not> (length fs = 1 \<and> format (fs ! 0) = VK_FORMAT_UNDEFINED)"
  proof
    assume a: "length fs = 1 \<and> format (fs ! 0) = VK_FORMAT_UNDEFINED"
    then obtain x where "fs = [x]" by (cases fs) auto
    with p a show False by (auto simp: preferredFormat_def)
  qed
  with g formatLoop_Some [OF g] show "chooseSwapSurfaceFormat fs = Inr preferredFormat"
    by (simp add: chooseSwapSurfaceFormat_def)
next
  assume "fs = [f] \<and> format f = VK_FORMAT_UNDEFINED"
  then show "chooseSwapSurfaceFormat fs = Inr preferredFormat"
    by (simp add: chooseSwapSurfaceFormat_def)
next
  assume a: "preferredFormat \<notin> set fs
     \<and> \<not> (length fs = 1 \<and> format (hd fs) = VK_FORMAT_UNDEFINED) \<and> fs \<noteq> []"
  then have n: "formatLoop fs = None" by (simp add: formatLoop_None)
  from a obtain x xs where fs: "fs = x # xs" by (cases fs) auto
  with a n show "chooseSwapSurfaceFormat fs = Inr (hd fs)"
    by (auto simp: chooseSwapSurfaceFormat_def)
qed

theorem chooseSwapSurfaceFormat_spec_witness:
  "chooseSwapSurfaceFormat
     [\<lparr>format = VK_FORMAT_other 37, colorSpace = VK_COLOR_SPACE_SRGB_NONLINEAR_KHR\<rparr>,
      preferredFormat] = Inr preferredFormat
   \<and> chooseSwapSurfaceFormat
       [\<lparr>format = VK_FORMAT_UNDEFINED, colorSpace = VK_COLOR_SPACE_other 7\<rparr>] = Inr preferredFormat
   \<and> chooseSwapSurfaceFormat
       [\<lparr>format = VK_FORMAT_other 37, colorSpace = VK_COLOR_SPACE_SRGB_NONLINEAR_KHR\<rparr>,
        \<lparr>format = VK_FORMAT_UNDEFINED, colorSpace = VK_COLOR_SPACE_SRGB_NONLINEAR_KHR\<rparr>]
     = Inr \<lparr>format = VK_FORMAT_other 37, colorSpace = VK_COLOR_SPACE_SRGB_NONLINEAR_KHR\<rparr>"
  using chooseSwapSurfaceFormat_spec
          [of "[\<lparr>format = VK_FORMAT_other 37, colorSpace = VK_COLOR_SPACE_SRGB_NONLINEAR_KHR\<rparr>,
                preferredFormat]"]
        chooseSwapSurfaceFormat_spec
          [of "[\<lparr>format = VK_FORMAT_UNDEFINED, colorSpace = VK_COLOR_SPACE_other 7\<rparr>]"
              "\<lparr>format = VK_FORMAT_UNDEFINED, colorSpace = VK_COLOR_SPACE_other 7\<rparr>"]
        chooseSwapSurfaceFormat_spec
          [of "[\<lparr>format = VK_FORMAT_other 37, colorSpace = VK_COLOR_SPACE_SRGB_NONLINEAR_KHR\<rparr>,
                \<lparr>format = VK_FORMAT_UNDEFINED, colorSpace = VK_COLOR_SPACE_SRGB_NONLINEAR_KHR\<rparr>]"]
  by (simp add: preferredFormat_def)

subsection \<open>Extent\<close>

lemma clamp_word_range:
  fixes lo hi x :: "'a::len word"
  assumes "lo \<le> hi"
  shows "lo \<le> max lo (min hi x)" and "max lo (min hi x) \<le> hi"
  using assms by (auto simp: max_def min_def)

lemma ucast_size_id:
  fixes w :: size_t
  assumes "unat w < 2 ^ 32"
  shows "unat (ucast w :: uint32_t) = unat w"
  using assms by (simp add: unsigned_ucast_eq take_bit_nat_eq_self)

lemma clamp_below:
  fixes lo hi :: uint32_t and w :: size_t
  assumes "lo \<le> hi" "unat w < unat lo"
  shows "max lo (min hi (ucast w)) = lo"
proof -
  have "unat w < 2 ^ 32" using assms(2) unsigned_less [of lo, where ?'a = nat] by simp
  then have "unat (ucast w :: uint32_t) = unat w" by (rule ucast_size_id)
  with assms show ?thesis by (simp add: max_def min_def word_le_nat_alt word_less_nat_alt)
qed

lemma clamp_inside:
  fixes lo hi :: uint32_t and w :: size_t
  assumes "unat lo \<le> unat w" "unat w \<le> unat hi"
  shows "unat (max lo (min hi (ucast w))) = unat w"
proof -
  have "unat w < 2 ^ 32" using assms(2) unsigned_less [of hi, where ?'a = nat] by simp
  then have "unat (ucast w :: uint32_t) = unat w" by (rule ucast_size_id)
  with assms show ?thesis by (simp add: max_def min_def word_le_nat_alt word_less_nat_alt)
qed

lemma clamp_above:
  fixes lo hi :: uint32_t and w :: size_t
  assumes "lo \<le> hi" "unat hi < unat w" "unat w < 2 ^ 32"
  shows "max lo (min hi (ucast w)) = hi"
proof -
  have "unat (ucast w :: uint32_t) = unat w" using assms(3) by (rule ucast_size_id)
  with assms show ?thesis by (simp add: max_def min_def word_le_nat_alt word_less_nat_alt)
qed

lemma chooseSwapExtent_undefined:
  "width (currentExtent caps) = 0xFFFFFFFF \<Longrightarrow>
   chooseSwapExtent caps w h =
     \<lparr>width = max (width (minImageExtent caps)) (min (width (maxImageExtent caps)) (ucast w)),
      height = max (height (minImageExtent caps)) (min (height (maxImageExtent caps)) (ucast h))\<rparr>"
  by (simp add: chooseSwapExtent_def Let_def)

text \<open>
  Claim C3. With a defined current extent the chosen extent is the current extent. With
  the sentinel \<open>0xFFFFFFFF\<close> as current width, the chosen extent is the desired size, as
  the 32-bit extent the code builds from it, clamped component-wise by
  \<open>max lo (min hi x)\<close>; for bounds \<open>lo \<le> hi\<close> the result lies between them, a desired
  value inside the bounds is returned unchanged, one below gives \<open>lo\<close> and one above
  (and below \<open>2 ^ 32\<close>) gives \<open>hi\<close>.
\<close>

theorem chooseSwapExtent_spec:
  "(width (currentExtent caps) \<noteq> 0xFFFFFFFF \<longrightarrow> chooseSwapExtent caps w h = currentExtent caps)
   \<and> (width (currentExtent caps) = 0xFFFFFFFF \<longrightarrow>
        chooseSwapExtent caps w h =
          \<lparr>width = max (width (minImageExtent caps))
                       (min (width (maxImageExtent caps)) (ucast w)),
           height = max (height (minImageExtent caps))
                        (min (height (maxImageExtent caps)) (ucast h))\<rparr>)
   \<and> (width (currentExtent caps) = 0xFFFFFFFF
        \<and> width (minImageExtent caps) \<le> width (maxImageExtent caps) \<longrightarrow>
          width (minImageExtent caps) \<le> width (chooseSwapExtent caps w h)
        \<and> width (chooseSwapExtent caps w h) \<le> width (maxImageExtent caps)
        \<and> (unat w < unat (width (minImageExtent caps)) \<longrightarrow>
             width (chooseSwapExtent caps w h) = width (minImageExtent caps))
        \<and> (unat (width (minImageExtent caps)) \<le> unat w
             \<and> unat w \<le> unat (width (maxImageExtent caps)) \<longrightarrow>
             unat (width (chooseSwapExtent caps w h)) = unat w)
        \<and> (unat (width (maxImageExtent caps)) < unat w \<and> unat w < 2 ^ 32 \<longrightarrow>
             width (chooseSwapExtent caps w h) = width (maxImageExtent caps)))
   \<and> (width (currentExtent caps) = 0xFFFFFFFF
        \<and> height (minImageExtent caps) \<le> height (maxImageExtent caps) \<longrightarrow>
          height (minImageExtent caps) \<le> height (chooseSwapExtent caps w h)
        \<and> height (chooseSwapExtent caps w h) \<le> height (maxImageExtent caps)
        \<and> (unat h < unat (height (minImageExtent caps)) \<longrightarrow>
             height (chooseSwapExtent caps w h) = height (minImageExtent caps))
        \<and> (unat (height (minImageExtent caps)) \<le> unat h
             \<and> unat h \<le> unat (height (maxImageExtent caps)) \<longrightarrow>
             unat (height (chooseSwapExtent caps w h)) = unat h)
        \<and> (unat (height (maxImageExtent caps)) < unat h \<and> unat h < 2 ^ 32 \<longrightarrow>
             height (chooseSwapExtent caps w h) = height (maxImageExtent caps)))"
proof (intro conjI impI)
  assume "width (currentExtent caps) \<noteq> 0xFFFFFFFF"
  then show "chooseSwapExtent caps w h = currentExtent caps"
    by (simp add: chooseSwapExtent_def)
qed (simp_all add: chooseSwapExtent_undefined clamp_word_range clamp_below clamp_inside
       clamp_above del: max.bounded_iff min.bounded_iff)

theorem chooseSwapExtent_spec_witness:
  "chooseSwapExtent caps_2_3 1280 720 = \<lparr>width = 800, height = 600\<rparr>
   \<and> chooseSwapExtent caps_2_2 5000 720 = \<lparr>width = 4096, height = 720\<rparr>
   \<and> chooseSwapExtent caps_2_2 0 4294967300 = \<lparr>width = 1, height = 4\<rparr>"
  using chooseSwapExtent_spec [of caps_2_3 1280 720]
        chooseSwapExtent_spec [of caps_2_2 5000 720]
        chooseSwapExtent_spec [of caps_2_2 0 4294967300]
  by (simp add: caps_2_2_def caps_2_3_def)

subsection \<open>Image count\<close>

lemma max32: "(0xFFFFFFFF :: uint32_t) = - 1"
  by simp

lemma inc_no_wrap:
  fixes a :: uint32_t
  assumes "a \<noteq> 0xFFFFFFFF"
  shows "unat (a + 1) = Suc (unat a)"
proof -
  have "a + 1 \<noteq> 0"
  proof
    assume "a + 1 = 0"
    then have "a = - 1" by (rule eq_neg_iff_add_eq_0 [THEN iffD2])
    with assms show False by (simp only: max32)
  qed
  then show ?thesis using unatSuc [of a] by (simp add: add.commute)
qed

lemma inc_below:
  fixes a m :: uint32_t
  assumes "a < m"
  shows "unat (a + 1) = Suc (unat a)"
proof -
  have "a \<noteq> - 1" using assms by (metis word_order.extremum_strict)
  then have "a \<noteq> 0xFFFFFFFF" unfolding max32 .
  then show ?thesis by (rule inc_no_wrap)
qed

lemma requested_ge:
  fixes a m :: uint32_t
  assumes "a \<noteq> 0xFFFFFFFF" "m = 0 \<or> a \<le> m"
  shows "a \<le> (if 0 < m \<and> m < a + 1 then m else a + 1)"
  using assms inc_no_wrap [of a] by (auto simp: word_le_nat_alt word_less_nat_alt)

lemma requested_le:
  fixes a m :: uint32_t
  assumes "0 < m"
  shows "(if 0 < m \<and> m < a + 1 then m else a + 1) \<le> m"
  using assms by (auto simp: word_le_nat_alt word_less_nat_alt)

lemma requested_eq:
  fixes a m :: uint32_t
  assumes "m = 0 \<or> a < m"
  shows "(if 0 < m \<and> m < a + 1 then m else a + 1) = a + 1"
proof (cases "m = 0")
  case True
  then show ?thesis by simp
next
  case False
  with assms have "a < m" by simp
  then have "\<not> m < a + 1"
    using inc_below [of a m] by (simp add: word_less_nat_alt)
  then show ?thesis by simp
qed

lemma requested_cap:
  fixes a m :: uint32_t
  assumes "a = m" "0 < m" "a \<noteq> 0xFFFFFFFF"
  shows "(if 0 < m \<and> m < a + 1 then m else a + 1) = m
         \<and> (if 0 < m \<and> m < a + 1 then m else a + 1) < a + 1"
proof -
  have "m < a + 1"
    using assms(1) inc_no_wrap [OF assms(3)] by (simp add: word_less_nat_alt)
  with assms(2) show ?thesis by simp
qed

text \<open>
  Claim C6, as amended. The requested image count is \<open>minImageCount + 1\<close>, replaced by
  \<open>maxImageCount\<close> when that is positive and smaller. It is at least \<open>minImageCount\<close>
  for a report with \<open>maxImageCount = 0\<close> or \<open>minImageCount \<le> maxImageCount\<close> (and
  \<open>minImageCount\<close> below the largest 32-bit value), at most a positive \<open>maxImageCount\<close>,
  and equal to \<open>minImageCount + 1\<close> when \<open>maxImageCount\<close> is 0 or exceeds \<open>minImageCount\<close>;
  when \<open>minImageCount = maxImageCount > 0\<close>, below the largest 32-bit value, it is only
  \<open>maxImageCount\<close>, one less than \<open>minImageCount + 1\<close>; for 2 and 3 it is 3.
\<close>

theorem requestedImageCount_amended:
  "requestedImageCount caps =
     (if 0 < maxImageCount caps \<and> maxImageCount caps < minImageCount caps + 1
      then maxImageCount caps else minImageCount caps + 1)
   \<and> (minImageCount caps \<noteq> 0xFFFFFFFF \<and> (maxImageCount caps = 0 \<or> minImageCount caps \<le> maxImageCount caps)
        \<longrightarrow> minImageCount caps \<le> requestedImageCount caps)
   \<and> (0 < maxImageCount caps \<longrightarrow> requestedImageCount caps \<le> maxImageCount caps)
   \<and> (maxImageCount caps = 0 \<or> minImageCount caps < maxImageCount caps
        \<longrightarrow> requestedImageCount caps = minImageCount caps + 1)
   \<and> (minImageCount caps = maxImageCount caps \<and> 0 < maxImageCount caps
        \<and> minImageCount caps \<noteq> 0xFFFFFFFF
        \<longrightarrow> requestedImageCount caps = maxImageCount caps
            \<and> requestedImageCount caps < minImageCount caps + 1)
   \<and> (minImageCount caps = 2 \<and> maxImageCount caps = 3 \<longrightarrow> requestedImageCount caps = 3)"
proof -
  have eq: "requestedImageCount caps =
     (if 0 < maxImageCount caps \<and> maxImageCount caps < minImageCount caps + 1
      then maxImageCount caps else minImageCount caps + 1)"
    by (simp add: requestedImageCount_def Let_def)
  have s: "minImageCount caps = 2 \<and> maxImageCount caps = 3 \<longrightarrow> requestedImageCount caps = 3"
    by (simp add: requestedImageCount_def Let_def)
  show ?thesis
    using requested_ge [of "minImageCount caps" "maxImageCount caps"]
      requested_le [of "maxImageCount caps" "minImageCount caps"]
      requested_eq [of "maxImageCount caps" "minImageCount caps"]
      requested_cap [of "minImageCount caps" "maxImageCount caps"] s
    unfolding eq by blast
qed

text \<open>
  The claim as written also promises at least \<open>minImageCount + 1\<close> images always; a report
  with \<open>minImageCount = maxImageCount = 2\<close> gets 2.
\<close>

theorem requestedImageCount_counterexample:
  "requestedImageCount caps_2_2 = 2
   \<and> \<not> minImageCount caps_2_2 + 1 \<le> requestedImageCount caps_2_2"
  by (simp add: requestedImageCount_def caps_2_2_def)

theorem requestedImageCount_amended_witness:
  "requestedImageCount caps_2_3 = 3 \<and> requestedImageCount caps_2_2 = 2
   \<and> minImageCount caps_2_2 \<le> requestedImageCount caps_2_2
   \<and> requestedImageCount caps_2_2 \<le> maxImageCount caps_2_2"
  using requestedImageCount_amended [of caps_2_3] requestedImageCount_amended [of caps_2_2]
  by (simp add: caps_2_2_def caps_2_3_def)

section \<open>Properties of device selection\<close>

lemma findQueueFamiliesLoop_complete:
  "0 \<le> i \<Longrightarrow>
   isComplete (findQueueFamiliesLoop fams i ind) \<longleftrightarrow>
     (graphicsFamily ind \<ge> 0 \<or> (\<exists>f \<in> set fams. hasGraphics f))
     \<and> (presentFamily ind \<ge> 0 \<or> (\<exists>f \<in> set fams. hasPresent f))"
proof (induction fams arbitrary: i ind)
  case Nil
  then show ?case by (simp add: isComplete_def)
next
  case (Cons a fams)
  obtain q p where a: "a = (q, p)" by (cases a)
  have i1: "0 \<le> i + 1" using Cons.prems by simp
  show ?case
    using Cons.prems Cons.IH [OF i1]
    by (auto simp: a Let_def isComplete_def hasGraphics_def hasPresent_def)
qed

lemma findQueueFamilies_complete:
  "isComplete (findQueueFamilies device) \<longleftrightarrow>
     (\<exists>f \<in> set (queueFamilies device). hasGraphics f)
     \<and> (\<exists>f \<in> set (queueFamilies device). hasPresent f)"
  by (simp add: findQueueFamilies_def findQueueFamiliesLoop_complete)

lemma fold_removeAll: "fold (\<lambda>e r. removeAll e r) xs req = filter (\<lambda>r. r \<notin> set xs) req"
  by (induction xs arbitrary: req) (auto simp: removeAll_filter_not_eq intro: filter_cong)

lemma checkDeviceExtensionSupport_iff:
  "checkDeviceExtensionSupport device \<longleftrightarrow>
     (\<forall>e \<in> set m_deviceExtensions. e \<in> set (extensionNames device))"
  by (auto simp: checkDeviceExtensionSupport_def Let_def fold_removeAll filter_empty_conv)

lemma pickLoop_find:
  "pickLoop devices m = (case find isDeviceSuitable devices of None \<Rightarrow> m | Some d \<Rightarrow> Some d)"
  by (induction devices) auto

text \<open>
  Claim C7. A device is suitable exactly when some queue family (with at least one queue)
  supports graphics, some queue family (with at least one queue) can present to the
  surface, the swapchain extension is among its extensions, the surface reports at least
  one format and one present mode, and anisotropic sampling is supported. Selection on a
  new render system returns the first suitable device of the enumeration, and aborts
  exactly when no enumerated device is suitable.
\<close>

theorem device_selection:
  "(isDeviceSuitable device \<longleftrightarrow>
      (\<exists>f \<in> set (queueFamilies device).
          queueCount (fst f) > 0 \<and> queueFlags (fst f) AND VK_QUEUE_GRAPHICS_BIT \<noteq> 0)
      \<and> (\<exists>f \<in> set (queueFamilies device). queueCount (fst f) > 0 \<and> snd f \<noteq> 0)
      \<and> VK_KHR_SWAPCHAIN_EXTENSION_NAME \<in> set (extensionNames device)
      \<and> surfaceFormats device \<noteq> [] \<and> surfacePresentModes device \<noteq> []
      \<and> samplerAnisotropy device \<noteq> 0)
   \<and> pickPhysicalDevice devices None =
       (case find isDeviceSuitable devices of None \<Rightarrow> Inl Abort | Some d \<Rightarrow> Inr d)
   \<and> (pickPhysicalDevice devices None = Inr d \<longleftrightarrow>
        (\<exists>i < length devices. isDeviceSuitable (devices ! i) \<and> d = devices ! i
            \<and> (\<forall>j < i. \<not> isDeviceSuitable (devices ! j))))
   \<and> (pickPhysicalDevice devices None = Inl Abort \<longleftrightarrow>
        (\<forall>x \<in> set devices. \<not> isDeviceSuitable x))"
proof (intro conjI)
  show "isDeviceSuitable device \<longleftrightarrow>
      (\<exists>f \<in> set (queueFamilies device).
          queueCount (fst f) > 0 \<and> queueFlags (fst f) AND VK_QUEUE_GRAPHICS_BIT \<noteq> 0)
      \<and> (\<exists>f \<in> set (queueFamilies device). queueCount (fst f) > 0 \<and> snd f \<noteq> 0)
      \<and> VK_KHR_SWAPCHAIN_EXTENSION_NAME \<in> set (extensionNames device)
      \<and> surfaceFormats device \<noteq> [] \<and> surfacePresentModes device \<noteq> []
      \<and> samplerAnisotropy device \<noteq> 0"
    unfolding isDeviceSuitable_def Let_def findQueueFamilies_complete
      checkDeviceExtensionSupport_iff querySwapChainSupport_def hasGraphics_def hasPresent_def
    by (auto simp: m_deviceExtensions_def)
  show p: "pickPhysicalDevice devices None =
       (case find isDeviceSuitable devices of None \<Rightarrow> Inl Abort | Some d \<Rightarrow> Inr d)"
    by (cases devices) (auto simp: pickPhysicalDevice_def pickLoop_find split: option.splits)
  show "pickPhysicalDevice devices None = Inr d \<longleftrightarrow>
        (\<exists>i < length devices. isDeviceSuitable (devices ! i) \<and> d = devices ! i
            \<and> (\<forall>j < i. \<not> isDeviceSuitable (devices ! j)))"
    unfolding p find_Some_iff [symmetric] by (simp split: option.splits)
  show "pickPhysicalDevice devices None = Inl Abort \<longleftrightarrow>
        (\<forall>x \<in> set devices. \<not> isDeviceSuitable x)"
  proof (cases "find isDeviceSuitable devices")
    case None
    then have "\<forall>x \<in> set devices. \<not> isDeviceSuitable x" by (simp add: find_None_iff)
    with None show ?thesis unfolding p by simp
  next
    case (Some x)
    then have "x \<in> set devices \<and> isDeviceSuitable x" by (auto simp: find_Some_iff)
    with Some show ?thesis unfolding p by auto
  qed
qed

lemma goodDevice_suitable: "isDeviceSuitable goodDevice"
  by (simp add: isDeviceSuitable_def goodDevice_def findQueueFamilies_def Let_def isComplete_def
      VK_QUEUE_GRAPHICS_BIT_def checkDeviceExtensionSupport_def m_deviceExtensions_def
      VK_KHR_SWAPCHAIN_EXTENSION_NAME_def querySwapChainSupport_def)

theorem device_selection_witness:
  "isDeviceSuitable goodDevice \<and> \<not> isDeviceSuitable noPresentDevice
   \<and> \<not> isDeviceSuitable noSwapchainDevice
   \<and> pickPhysicalDevice [noPresentDevice, noSwapchainDevice, goodDevice, secondGoodDevice] None
       = Inr goodDevice
   \<and> pickPhysicalDevice [noPresentDevice, noSwapchainDevice] None = Inl Abort
   \<and> pickPhysicalDevice [] None = Inl Abort"
  using device_selection [of goodDevice "[noPresentDevice, noSwapchainDevice, goodDevice, secondGoodDevice]" goodDevice]
    device_selection [of noPresentDevice "[noPresentDevice, noSwapchainDevice]" goodDevice]
    device_selection [of noSwapchainDevice "[]" goodDevice]
  by (simp add: goodDevice_def noPresentDevice_def noSwapchainDevice_def secondGoodDevice_def
      VK_QUEUE_GRAPHICS_BIT_def VK_KHR_SWAPCHAIN_EXTENSION_NAME_def preferredFormat_def)

section \<open>Properties of the frame loop\<close>

lemma frameIteration_trace: "fst (frameIteration env s) = PollEvents # fst (update env s)"
  by (simp add: frameIteration_def split: prod.splits)

lemma frameIteration_state: "snd (frameIteration env s) = snd (update env s)"
  by (simp add: frameIteration_def split: prod.splits)

lemma acquire_not_before: "AcquireNextImage \<notin> set (beforeAcquire env s)"
  by (simp add: beforeAcquire_def)

lemma iteration_cases:
  "fst (frameIteration env s) = beforeAcquire env s @ [StdAbort]
   \<or> (\<exists>rest. fst (frameIteration env s) = beforeAcquire env s @ AcquireNextImage # rest)"
  by (auto simp: frameIteration_trace update_def beforeAcquire_def Let_def split: sum.splits)

lemma iteration_out_of_date:
  assumes "AcquireNextImage \<in> set (fst (frameIteration env s))"
    and "acquireResult env = VK_ERROR_OUT_OF_DATE_KHR"
  shows "fst (frameIteration env s) = beforeAcquire env s @ [AcquireNextImage, RecreateSwapChain]
         \<or> fst (frameIteration env s) = beforeAcquire env s @ [AcquireNextImage, RecreateSwapChain, StdAbort]"
  using assms
  by (auto simp: frameIteration_trace update_def beforeAcquire_def Let_def split: sum.splits if_splits)

lemma iteration_fatal_acquire:
  assumes "AcquireNextImage \<in> set (fst (frameIteration env s))"
    and "acquireResult env \<noteq> VK_SUCCESS" "acquireResult env \<noteq> VK_SUBOPTIMAL_KHR"
    "acquireResult env \<noteq> VK_ERROR_OUT_OF_DATE_KHR"
  shows "fst (frameIteration env s) = beforeAcquire env s @ [AcquireNextImage, StdAbort]
         \<and> snd (frameIteration env s) = None"
  using assms
  by (auto simp: frameIteration_trace frameIteration_state update_def beforeAcquire_def Let_def split: sum.splits if_splits)

lemma iteration_acquired:
  assumes "AcquireNextImage \<in> set (fst (frameIteration env s))"
    and "acquireResult env = VK_SUCCESS \<or> acquireResult env = VK_SUBOPTIMAL_KHR"
  shows "\<exists>rest. fst (frameIteration env s) = beforeAcquire env s @ [AcquireNextImage, QueueSubmit] @ rest"
  using assms
  by (auto simp: frameIteration_trace update_def beforeAcquire_def Let_def split: sum.splits if_splits)

lemma iteration_out_of_date_state:
  assumes "AcquireNextImage \<in> set (fst (frameIteration env s))"
    and "acquireResult env = VK_ERROR_OUT_OF_DATE_KHR"
  shows "(fst (frameIteration env s) = beforeAcquire env s @ [AcquireNextImage, RecreateSwapChain]
          \<and> (\<exists>s0 s'. recreateSwapChain env s0 = Inr s'
                \<and> snd (frameIteration env s) = Some s'
                \<and> m_swapChainExtent s' =
                    chooseSwapExtent (capabilities (supportDetails env))
                      (inputWidth env) (inputHeight env)
                \<and> ci_minImageCount (m_swapChain s') =
                    requestedImageCount (capabilities (supportDetails env))
                \<and> ci_presentMode (m_swapChain s') =
                    chooseSwapPresentMode (presentModes (supportDetails env))
                \<and> chooseSwapSurfaceFormat (formats (supportDetails env)) =
                    Inr \<lparr>format = m_swapChainImageFormat s',
                         colorSpace = ci_imageColorSpace (m_swapChain s')\<rparr>))
       \<or> (fst (frameIteration env s) =
            beforeAcquire env s @ [AcquireNextImage, RecreateSwapChain, StdAbort]
          \<and> snd (frameIteration env s) = None
          \<and> (\<exists>s0 e. recreateSwapChain env s0 = Inl e))"
proof -
  let ?s1 = "if shouldResize env \<and> inputWidth env > 0 \<and> inputHeight env > 0
             then projr (recreateSwapChain env s) else s"
  show ?thesis
  proof (cases "recreateSwapChain env ?s1")
    case (Inl e)
    then have "\<exists>s0 e. recreateSwapChain env s0 = Inl e" by blast
    moreover have "fst (frameIteration env s) =
            beforeAcquire env s @ [AcquireNextImage, RecreateSwapChain, StdAbort]
          \<and> snd (frameIteration env s) = None"
      using assms Inl
      by (auto simp: frameIteration_trace frameIteration_state update_def beforeAcquire_def Let_def
          split: sum.splits if_splits)
    ultimately show ?thesis by blast
  next
    case (Inr s')
    have run: "fst (frameIteration env s) =
            beforeAcquire env s @ [AcquireNextImage, RecreateSwapChain]
          \<and> snd (frameIteration env s) = Some s'"
      using assms Inr
      by (auto simp: frameIteration_trace frameIteration_state update_def beforeAcquire_def Let_def
          split: sum.splits if_splits)
    have "m_swapChainExtent s' =
            chooseSwapExtent (capabilities (supportDetails env)) (inputWidth env) (inputHeight env)
          \<and> ci_minImageCount (m_swapChain s') =
              requestedImageCount (capabilities (supportDetails env))
          \<and> ci_presentMode (m_swapChain s') =
              chooseSwapPresentMode (presentModes (supportDetails env))
          \<and> chooseSwapSurfaceFormat (formats (supportDetails env)) =
              Inr \<lparr>format = m_swapChainImageFormat s',
                   colorSpace = ci_imageColorSpace (m_swapChain s')\<rparr>"
      using Inr
      by (auto simp: recreateSwapChain_def createSwapChain_def Let_def
          split: sum.splits if_splits)
    with run Inr show ?thesis by blast
  qed
qed

text \<open>
  Claim C1. In every iteration that reaches the acquire: on an out-of-date result the
  swapchain is recreated directly after the acquire and nothing else follows (no submit,
  no present), apart from the abort when the recreation itself fails; the render system
  left behind is the one \<^verbatim>\<open>recreateSwapChain\<close> returns, with the extent, image count,
  present mode and surface format chosen from the surface report of the iteration. On a
  result that is neither success, suboptimal nor out-of-date the process aborts directly
  after the acquire, without submit or present. On success or suboptimal the iteration
  goes on to the submit.
\<close>

theorem acquire_result_handling:
  assumes "AcquireNextImage \<in> set (fst (frameIteration env s))"
  shows "(acquireResult env = VK_ERROR_OUT_OF_DATE_KHR \<longrightarrow>
            (\<exists>pre post. fst (frameIteration env s) = pre @ [AcquireNextImage, RecreateSwapChain] @ post
                \<and> AcquireNextImage \<notin> set pre \<and> (post = [] \<or> post = [StdAbort]))
            \<and> QueueSubmit \<notin> set (fst (frameIteration env s))
            \<and> QueuePresent \<notin> set (fst (frameIteration env s))
            \<and> ((\<exists>pre s0 s'.
                    fst (frameIteration env s) = pre @ [AcquireNextImage, RecreateSwapChain]
                  \<and> recreateSwapChain env s0 = Inr s'
                  \<and> snd (frameIteration env s) = Some s'
                  \<and> m_swapChainExtent s' =
                      chooseSwapExtent (capabilities (supportDetails env))
                        (inputWidth env) (inputHeight env)
                  \<and> ci_minImageCount (m_swapChain s') =
                      requestedImageCount (capabilities (supportDetails env))
                  \<and> ci_presentMode (m_swapChain s') =
                      chooseSwapPresentMode (presentModes (supportDetails env))
                  \<and> chooseSwapSurfaceFormat (formats (supportDetails env)) =
                      Inr \<lparr>format = m_swapChainImageFormat s',
                           colorSpace = ci_imageColorSpace (m_swapChain s')\<rparr>)
               \<or> (\<exists>pre s0 e.
                    fst (frameIteration env s) =
                      pre @ [AcquireNextImage, RecreateSwapChain, StdAbort]
                  \<and> recreateSwapChain env s0 = Inl e
                  \<and> snd (frameIteration env s) = None)))
       \<and> (acquireResult env \<noteq> VK_SUCCESS \<and> acquireResult env \<noteq> VK_SUBOPTIMAL_KHR
            \<and> acquireResult env \<noteq> VK_ERROR_OUT_OF_DATE_KHR \<longrightarrow>
            (\<exists>pre. fst (frameIteration env s) = pre @ [AcquireNextImage, StdAbort])
            \<and> snd (frameIteration env s) = None
            \<and> QueueSubmit \<notin> set (fst (frameIteration env s))
            \<and> QueuePresent \<notin> set (fst (frameIteration env s)))
       \<and> (acquireResult env = VK_SUCCESS \<or> acquireResult env = VK_SUBOPTIMAL_KHR \<longrightarrow>
            QueueSubmit \<in> set (fst (frameIteration env s)))"
proof (intro conjI impI)
  assume ood: "acquireResult env = VK_ERROR_OUT_OF_DATE_KHR"
  from iteration_out_of_date [OF assms ood]
  show "\<exists>pre post. fst (frameIteration env s) = pre @ [AcquireNextImage, RecreateSwapChain] @ post
                \<and> AcquireNextImage \<notin> set pre \<and> (post = [] \<or> post = [StdAbort])"
    using acquire_not_before [of env s] by (metis append_Cons append_Nil)
  from iteration_out_of_date [OF assms ood]
  show "QueueSubmit \<notin> set (fst (frameIteration env s))"
    by (auto simp: beforeAcquire_def)
  from iteration_out_of_date [OF assms ood]
  show "QueuePresent \<notin> set (fst (frameIteration env s))"
    by (auto simp: beforeAcquire_def)
  from iteration_out_of_date_state [OF assms ood]
  show "(\<exists>pre s0 s'.
            fst (frameIteration env s) = pre @ [AcquireNextImage, RecreateSwapChain]
          \<and> recreateSwapChain env s0 = Inr s'
          \<and> snd (frameIteration env s) = Some s'
          \<and> m_swapChainExtent s' =
              chooseSwapExtent (capabilities (supportDetails env))
                (inputWidth env) (inputHeight env)
          \<and> ci_minImageCount (m_swapChain s') =
              requestedImageCount (capabilities (supportDetails env))
          \<and> ci_presentMode (m_swapChain s') =
              chooseSwapPresentMode (presentModes (supportDetails env))
          \<and> chooseSwapSurfaceFormat (formats (supportDetails env)) =
              Inr \<lparr>format = m_swapChainImageFormat s',
                   colorSpace = ci_imageColorSpace (m_swapChain s')\<rparr>)
       \<or> (\<exists>pre s0 e.
            fst (frameIteration env s) =
              pre @ [AcquireNextImage, RecreateSwapChain, StdAbort]
          \<and> recreateSwapChain env s0 = Inl e
          \<and> snd (frameIteration env s) = None)"
    by blast
next
  assume f: "acquireResult env \<noteq> VK_SUCCESS \<and> acquireResult env \<noteq> VK_SUBOPTIMAL_KHR
            \<and> acquireResult env \<noteq> VK_ERROR_OUT_OF_DATE_KHR"
  then have *: "fst (frameIteration env s) = beforeAcquire env s @ [AcquireNextImage, StdAbort]
         \<and> snd (frameIteration env s) = None"
    using iteration_fatal_acquire [OF assms] by simp
  then show "\<exists>pre. fst (frameIteration env s) = pre @ [AcquireNextImage, StdAbort]" by blast
  from * show "snd (frameIteration env s) = None" by simp
  from * show "QueueSubmit \<notin> set (fst (frameIteration env s))" by (auto simp: beforeAcquire_def)
  from * show "QueuePresent \<notin> set (fst (frameIteration env s))" by (auto simp: beforeAcquire_def)
next
  assume "acquireResult env = VK_SUCCESS \<or> acquireResult env = VK_SUBOPTIMAL_KHR"
  from iteration_acquired [OF assms this]
  show "QueueSubmit \<in> set (fst (frameIteration env s))" by auto
qed

lemmas env_defs = quietEnv_def outOfDateEnv_def deviceLostEnv_def suboptimalEnv_def resizeEnv_def
  liveSystem_def resizedSystem_def caps_2_3_def preferredFormat_def

lemmas run_defs = frameIteration_def update_def recreateSwapChain_def createSwapChain_def
  chooseSwapSurfaceFormat_def chooseSwapPresentMode_def chooseSwapExtent_def
  requestedImageCount_def Let_def

lemma run_out_of_date:
  "frameIteration outOfDateEnv liveSystem =
     ([PollEvents, UpdateUniformBuffer \<lparr>width = 1280, height = 720\<rparr>, AcquireNextImage,
       RecreateSwapChain], Some resizedSystem)"
  by (simp add: env_defs run_defs)

lemma run_device_lost:
  "frameIteration deviceLostEnv liveSystem =
     ([PollEvents, UpdateUniformBuffer \<lparr>width = 1280, height = 720\<rparr>, AcquireNextImage,
       StdAbort], None)"
  by (simp add: env_defs run_defs)

theorem acquire_result_handling_witness:
  "AcquireNextImage \<in> set (fst (frameIteration outOfDateEnv liveSystem))
   \<and> acquireResult outOfDateEnv = VK_ERROR_OUT_OF_DATE_KHR
   \<and> fst (frameIteration outOfDateEnv liveSystem) =
        [PollEvents, UpdateUniformBuffer \<lparr>width = 1280, height = 720\<rparr>, AcquireNextImage,
         RecreateSwapChain]
   \<and> QueueSubmit \<notin> set (fst (frameIteration outOfDateEnv liveSystem))
   \<and> QueuePresent \<notin> set (fst (frameIteration outOfDateEnv liveSystem))
   \<and> snd (frameIteration outOfDateEnv liveSystem) = Some resizedSystem
   \<and> recreateSwapChain outOfDateEnv liveSystem = Inr resizedSystem
   \<and> m_swapChainExtent liveSystem = \<lparr>width = 1280, height = 720\<rparr>
   \<and> m_swapChainExtent resizedSystem = \<lparr>width = 800, height = 600\<rparr>
   \<and> AcquireNextImage \<in> set (fst (frameIteration deviceLostEnv liveSystem))
   \<and> acquireResult deviceLostEnv = VK_RESULT_other (- 4)
   \<and> snd (frameIteration deviceLostEnv liveSystem) = None
   \<and> QueueSubmit \<notin> set (fst (frameIteration deviceLostEnv liveSystem))
   \<and> AcquireNextImage \<in> set (fst (frameIteration quietEnv liveSystem))
   \<and> acquireResult quietEnv = VK_SUCCESS
   \<and> QueueSubmit \<in> set (fst (frameIteration quietEnv liveSystem))"
proof -
  have a: "AcquireNextImage \<in> set (fst (frameIteration outOfDateEnv liveSystem))"
    by (simp add: run_out_of_date)
  have b: "AcquireNextImage \<in> set (fst (frameIteration deviceLostEnv liveSystem))"
    by (simp add: run_device_lost)
  have c: "AcquireNextImage \<in> set (fst (frameIteration quietEnv liveSystem))"
    by (simp add: env_defs run_defs)
  have r: "acquireResult outOfDateEnv = VK_ERROR_OUT_OF_DATE_KHR"
    "acquireResult deviceLostEnv = VK_RESULT_other (- 4)" "acquireResult quietEnv = VK_SUCCESS"
    by (simp_all add: env_defs)
  have st: "recreateSwapChain outOfDateEnv liveSystem = Inr resizedSystem"
    "m_swapChainExtent liveSystem = \<lparr>width = 1280, height = 720\<rparr>"
    "m_swapChainExtent resizedSystem = \<lparr>width = 800, height = 600\<rparr>"
    by (simp_all add: env_defs run_defs)
  show ?thesis
    using acquire_result_handling [OF a] acquire_result_handling [OF b]
      acquire_result_handling [OF c] a b c r st
    by (simp add: run_out_of_date)
qed

lemma iteration_present_recreates:
  assumes "QueuePresent \<in> set (fst (frameIteration env s))"
    and "presentResult env = VK_SUBOPTIMAL_KHR \<or> presentResult env = VK_ERROR_OUT_OF_DATE_KHR"
  shows "(fst (frameIteration env s) =
            beforeAcquire env s @ [AcquireNextImage, QueueSubmit, QueuePresent, RecreateSwapChain, QueueWaitIdle]
          \<and> (\<exists>s'. snd (frameIteration env s) = Some s'
                \<and> m_swapChainExtent s' =
                    chooseSwapExtent (capabilities (supportDetails env)) (inputWidth env) (inputHeight env)))
       \<or> (fst (frameIteration env s) =
            beforeAcquire env s @ [AcquireNextImage, QueueSubmit, QueuePresent, RecreateSwapChain, StdAbort]
          \<and> snd (frameIteration env s) = None)"
  using assms
  by (auto simp: frameIteration_trace frameIteration_state update_def beforeAcquire_def Let_def
      recreateSwapChain_def createSwapChain_def split: sum.splits if_splits)

text \<open>
  Claim C2, as amended. In every iteration that presents an image and gets a suboptimal
  result, swapchain recreation is invoked directly after the present; the iteration then
  ends with the wait for the present queue, on the recreated swapchain, unless the
  recreation itself is fatal.
\<close>

theorem present_suboptimal_recreates:
  assumes "QueuePresent \<in> set (fst (frameIteration env s))"
    and "presentResult env = VK_SUBOPTIMAL_KHR"
  shows "\<exists>pre. QueuePresent \<notin> set pre
          \<and> ((fst (frameIteration env s) = pre @ [QueuePresent, RecreateSwapChain, QueueWaitIdle]
               \<and> (\<exists>s'. snd (frameIteration env s) = Some s'
                     \<and> m_swapChainExtent s' =
                         chooseSwapExtent (capabilities (supportDetails env))
                           (inputWidth env) (inputHeight env)))
             \<or> (fst (frameIteration env s) = pre @ [QueuePresent, RecreateSwapChain, StdAbort]
                 \<and> snd (frameIteration env s) = None))"
proof -
  let ?pre = "beforeAcquire env s @ [AcquireNextImage, QueueSubmit]"
  have "QueuePresent \<notin> set ?pre" by (simp add: beforeAcquire_def)
  moreover have "(fst (frameIteration env s) = ?pre @ [QueuePresent, RecreateSwapChain, QueueWaitIdle]
               \<and> (\<exists>s'. snd (frameIteration env s) = Some s'
                     \<and> m_swapChainExtent s' =
                         chooseSwapExtent (capabilities (supportDetails env))
                           (inputWidth env) (inputHeight env)))
             \<or> (fst (frameIteration env s) = ?pre @ [QueuePresent, RecreateSwapChain, StdAbort]
                 \<and> snd (frameIteration env s) = None)"
    using iteration_present_recreates [OF assms(1)] assms(2) by simp
  ultimately show ?thesis by blast
qed

lemma run_suboptimal:
  "frameIteration suboptimalEnv liveSystem =
     ([PollEvents, UpdateUniformBuffer \<lparr>width = 1280, height = 720\<rparr>, AcquireNextImage,
       QueueSubmit, QueuePresent, RecreateSwapChain, QueueWaitIdle], Some resizedSystem)"
  by (simp add: env_defs run_defs)

lemma run_resize:
  "frameIteration resizeEnv liveSystem =
     ([PollEvents, UpdateUniformBuffer \<lparr>width = 1280, height = 720\<rparr>, RecreateSwapChain,
       AcquireNextImage, QueueSubmit, QueuePresent, QueueWaitIdle], Some resizedSystem)"
  by (simp add: env_defs run_defs)

text \<open>
  The claim as written says that a suboptimal present result does not trigger recreation;
  the iteration below presents, gets the suboptimal result and recreates the swapchain.
\<close>

theorem present_suboptimal_counterexample:
  "presentResult suboptimalEnv = VK_SUBOPTIMAL_KHR
   \<and> fst (frameIteration suboptimalEnv liveSystem) =
       [PollEvents, UpdateUniformBuffer \<lparr>width = 1280, height = 720\<rparr>, AcquireNextImage,
        QueueSubmit, QueuePresent, RecreateSwapChain, QueueWaitIdle]
   \<and> RecreateSwapChain \<in> set (fst (frameIteration suboptimalEnv liveSystem))"
  by (simp add: run_suboptimal) (simp add: env_defs)

theorem present_suboptimal_recreates_witness:
  "QueuePresent \<in> set (fst (frameIteration suboptimalEnv liveSystem))
   \<and> presentResult suboptimalEnv = VK_SUBOPTIMAL_KHR
   \<and> (\<exists>pre. QueuePresent \<notin> set pre
         \<and> fst (frameIteration suboptimalEnv liveSystem)
             = pre @ [QueuePresent, RecreateSwapChain, QueueWaitIdle])
   \<and> snd (frameIteration suboptimalEnv liveSystem) = Some resizedSystem"
proof -
  have a: "QueuePresent \<in> set (fst (frameIteration suboptimalEnv liveSystem))"
    by (simp add: run_suboptimal)
  have b: "presentResult suboptimalEnv = VK_SUBOPTIMAL_KHR" by (simp add: env_defs)
  from present_suboptimal_recreates [OF a b] obtain pre where
    "QueuePresent \<notin> set pre"
    "fst (frameIteration suboptimalEnv liveSystem) = pre @ [QueuePresent, RecreateSwapChain, QueueWaitIdle]
     \<or> fst (frameIteration suboptimalEnv liveSystem) = pre @ [QueuePresent, RecreateSwapChain, StdAbort]
        \<and> snd (frameIteration suboptimalEnv liveSystem) = None"
    by blast
  then have "\<exists>pre. QueuePresent \<notin> set pre
         \<and> fst (frameIteration suboptimalEnv liveSystem)
             = pre @ [QueuePresent, RecreateSwapChain, QueueWaitIdle]"
    by (auto simp: run_suboptimal)
  with a b show ?thesis by (simp add: run_suboptimal)
qed

text \<open>
  Claim C8, as amended. In every iteration with a pending resize of positive width and
  height, the uniform buffer is updated first, with the extent the swapchain has before
  the recreation; swapchain recreation is invoked next, before any other call of the
  iteration, and the next image is acquired only after it.
\<close>

theorem resize_recreates_after_uniform_update:
  assumes "shouldResize env" and "inputWidth env > 0" and "inputHeight env > 0"
  shows "\<exists>post. fst (frameIteration env s) =
             [PollEvents, UpdateUniformBuffer (m_swapChainExtent s), RecreateSwapChain] @ post
           \<and> (post = [StdAbort] \<or> (\<exists>rest. post = AcquireNextImage # rest))"
proof -
  have b: "beforeAcquire env s =
      [PollEvents, UpdateUniformBuffer (m_swapChainExtent s), RecreateSwapChain]"
    using assms by (simp add: beforeAcquire_def)
  from iteration_cases [of env s] show ?thesis unfolding b by auto
qed

text \<open>
  The claim as written puts the recreation before the uniform buffer update; in the
  iteration below the buffer is updated with the extent 1280 x 720 of the old swapchain,
  and only then is the swapchain recreated with the extent 800 x 600.
\<close>

theorem resize_counterexample:
  "shouldResize resizeEnv \<and> inputWidth resizeEnv > 0 \<and> inputHeight resizeEnv > 0
   \<and> fst (frameIteration resizeEnv liveSystem) =
       [PollEvents, UpdateUniformBuffer \<lparr>width = 1280, height = 720\<rparr>, RecreateSwapChain,
        AcquireNextImage, QueueSubmit, QueuePresent, QueueWaitIdle]
   \<and> m_swapChainExtent liveSystem = \<lparr>width = 1280, height = 720\<rparr>
   \<and> map_option m_swapChainExtent (snd (frameIteration resizeEnv liveSystem))
       = Some \<lparr>width = 800, height = 600\<rparr>"
  by (simp add: run_resize) (simp add: env_defs)

theorem resize_recreates_after_uniform_update_witness:
  "shouldResize resizeEnv \<and> inputWidth resizeEnv > 0 \<and> inputHeight resizeEnv > 0
   \<and> (\<exists>post. fst (frameIteration resizeEnv liveSystem) =
          [PollEvents, UpdateUniformBuffer (m_swapChainExtent liveSystem), RecreateSwapChain] @ post)
   \<and> take 4 (fst (frameIteration resizeEnv liveSystem)) =
       [PollEvents, UpdateUniformBuffer \<lparr>width = 1280, height = 720\<rparr>, RecreateSwapChain,
        AcquireNextImage]"
proof -
  have a: "shouldResize resizeEnv" "inputWidth resizeEnv > 0" "inputHeight resizeEnv > 0"
    by (simp_all add: env_defs)
  from resize_recreates_after_uniform_update [OF a, of liveSystem]
  have "\<exists>post. fst (frameIteration resizeEnv liveSystem) =
          [PollEvents, UpdateUniformBuffer (m_swapChainExtent liveSystem), RecreateSwapChain] @ post"
    by blast
  with a show ?thesis by (simp add: run_resize)
qed

section \<open>Properties of mesh loading\<close>

lemma subscript_present: "m k = Some v \<Longrightarrow> subscript m k = (v, m)"
  by (simp add: subscript_def)

lemma addVertex_new:
  "m v = None \<Longrightarrow>
   addVertex v (vs, ix, m) =
     (vs @ [v], ix @ [of_nat (length vs)], m(v \<mapsto> of_nat (length vs)))"
  by (simp add: addVertex_def subscript_def)

lemma addVertex_old: "m v = Some i \<Longrightarrow> addVertex v (vs, ix, m) = (vs, ix @ [i], m)"
  by (simp add: addVertex_def subscript_def)

lemma unat_of_nat32_le: "unat (of_nat n :: uint32_t) \<le> n"
  by (simp add: unat_of_nat)

lemma unat_of_nat32_eq: "n < 2 ^ 32 \<Longrightarrow> unat (of_nat n :: uint32_t) = n"
  by (simp add: unat_of_nat)

lemma deduplicated_step:
  assumes "deduplicated seen st"
  shows "deduplicated (seen @ [v]) (addVertex v st)"
proof -
  obtain vs ix m where st: "st = (vs, ix, m)" by (cases st)
  from assms have d: "distinct vs" and s: "set vs = set seen" and dm: "dom m = set vs"
    and r: "\<And>u i. m u = Some i \<Longrightarrow> unat i < length vs \<and> (length vs \<le> 2 ^ 32 \<longrightarrow> vs ! unat i = u)"
    and i: "ix = map (\<lambda>u. the (m u)) seen"
    by (auto simp: deduplicated_def st)
  show ?thesis
  proof (cases "m v")
    case None
    then have nv: "v \<notin> set vs" using dm by auto
    let ?n = "of_nat (length vs) :: uint32_t"
    have same: "map (\<lambda>u. the ((m(v \<mapsto> ?n)) u)) seen = map (\<lambda>u. the (m u)) seen"
      using nv s by (intro map_cong) auto
    have rng: "\<And>u k. (m(v \<mapsto> ?n)) u = Some k \<Longrightarrow>
        unat k < length (vs @ [v]) \<and> (length (vs @ [v]) \<le> 2 ^ 32 \<longrightarrow> (vs @ [v]) ! unat k = u)"
    proof -
      fix u k assume a: "(m(v \<mapsto> ?n)) u = Some k"
      show "unat k < length (vs @ [v]) \<and> (length (vs @ [v]) \<le> 2 ^ 32 \<longrightarrow> (vs @ [v]) ! unat k = u)"
      proof (cases "u = v")
        case True
        with a have k: "k = ?n" by simp
        have "unat k \<le> length vs" unfolding k by (rule unat_of_nat32_le)
        moreover have "length (vs @ [v]) \<le> 2 ^ 32 \<longrightarrow> unat k = length vs"
          unfolding k using unat_of_nat32_eq [of "length vs"] by simp
        ultimately show ?thesis using True by (auto simp: nth_append)
      next
        case False
        with a have "m u = Some k" by simp
        from r [OF this] show ?thesis by (auto simp: nth_append)
      qed
    qed
    show ?thesis
      unfolding st addVertex_new [of m v vs ix, OF None] deduplicated_def
      using d s dm nv i same rng by auto
  next
    case (Some k)
    then have "v \<in> set vs" using dm by auto
    then show ?thesis
      unfolding st addVertex_old [of m v k vs ix, OF Some] deduplicated_def
      using d s dm i r Some by auto
  qed
qed

lemma deduplicated_fold:
  "deduplicated seen st \<Longrightarrow> deduplicated (seen @ cvs) (fold addVertex cvs st)"
proof (induction cvs arbitrary: seen st)
  case Nil
  then show ?case by simp
next
  case (Cons v cvs)
  from Cons.IH [OF deduplicated_step [OF Cons.prems, of v]] show ?case by simp
qed

lemma deduplicated_start: "deduplicated [] ([], [], Map.empty)"
  by (simp add: deduplicated_def)

lemma indexLoop_Inr_iff:
  "indexLoop attrib idx st = Inr st' \<longleftrightarrow>
     (\<exists>cvs. map (makeVertex attrib) idx = map Inr cvs \<and> st' = fold addVertex cvs st)"
proof (induction idx arbitrary: st st')
  case Nil
  then show ?case by auto
next
  case (Cons index idx)
  show ?case
  proof (cases "makeVertex attrib index")
    case (Inl e)
    then show ?thesis by (auto simp: map_eq_Cons_conv)
  next
    case (Inr v)
    show ?thesis
    proof
      assume "indexLoop attrib (index # idx) st = Inr st'"
      then obtain cvs where "map (makeVertex attrib) idx = map Inr cvs"
        "st' = fold addVertex cvs (addVertex v st)"
        using Inr Cons.IH by auto
      then have "map (makeVertex attrib) (index # idx) = map Inr (v # cvs)
          \<and> st' = fold addVertex (v # cvs) st" using Inr by simp
      then show "\<exists>cvs. map (makeVertex attrib) (index # idx) = map Inr cvs
          \<and> st' = fold addVertex cvs st" by blast
    next
      assume "\<exists>cvs. map (makeVertex attrib) (index # idx) = map Inr cvs
          \<and> st' = fold addVertex cvs st"
      then obtain cvs where c: "map (makeVertex attrib) (index # idx) = map Inr cvs"
        "st' = fold addVertex cvs st" by blast
      then obtain w ws where cw: "cvs = w # ws" by (cases cvs) auto
      with c Inr have "w = v" "map (makeVertex attrib) idx = map Inr ws"
        "st' = fold addVertex ws (addVertex v st)" by auto
      then show "indexLoop attrib (index # idx) st = Inr st'"
        using Inr Cons.IH by auto
    qed
  qed
qed

lemma shapeLoop_Inr_iff:
  "shapeLoop attrib shapes st = Inr st' \<longleftrightarrow>
     (\<exists>cvs. map (makeVertex attrib) (faceCorners shapes) = map Inr cvs
        \<and> st' = fold addVertex cvs st)"
proof (induction shapes arbitrary: st st')
  case Nil
  then show ?case by (auto simp: faceCorners_def)
next
  case (Cons shape shapes)
  have fc: "faceCorners (shape # shapes) = mesh_indices shape @ faceCorners shapes"
    by (simp add: faceCorners_def)
  show ?case
  proof
    assume a: "shapeLoop attrib (shape # shapes) st = Inr st'"
    then obtain st1 where s1: "indexLoop attrib (mesh_indices shape) st = Inr st1"
      and s2: "shapeLoop attrib shapes st1 = Inr st'"
      by (auto split: sum.splits)
    from s1 obtain c1 where c1: "map (makeVertex attrib) (mesh_indices shape) = map Inr c1"
      "st1 = fold addVertex c1 st" using indexLoop_Inr_iff by blast
    from s2 obtain c2 where c2: "map (makeVertex attrib) (faceCorners shapes) = map Inr c2"
      "st' = fold addVertex c2 st1" using Cons.IH by blast
    from c1 c2 have "map (makeVertex attrib) (faceCorners (shape # shapes)) = map Inr (c1 @ c2)
        \<and> st' = fold addVertex (c1 @ c2) st" by (simp add: fc)
    then show "\<exists>cvs. map (makeVertex attrib) (faceCorners (shape # shapes)) = map Inr cvs
        \<and> st' = fold addVertex cvs st" by blast
  next
    assume "\<exists>cvs. map (makeVertex attrib) (faceCorners (shape # shapes)) = map Inr cvs
        \<and> st' = fold addVertex cvs st"
    then obtain cvs where c: "map (makeVertex attrib) (faceCorners (shape # shapes)) = map Inr cvs"
      "st' = fold addVertex cvs st" by blast
    let ?n = "length (mesh_indices shape)"
    from c(1) have l: "length cvs = ?n + length (faceCorners shapes)"
      unfolding fc by (metis length_append length_map)
    have c1: "map (makeVertex attrib) (mesh_indices shape) = map Inr (take ?n cvs)"
      using arg_cong [OF c(1), of "take ?n"] by (simp add: fc take_map)
    have c2: "map (makeVertex attrib) (faceCorners shapes) = map Inr (drop ?n cvs)"
      using arg_cong [OF c(1), of "drop ?n"] by (simp add: fc drop_map)
    have "indexLoop attrib (mesh_indices shape) st = Inr (fold addVertex (take ?n cvs) st)"
      using c1 indexLoop_Inr_iff by blast
    moreover have "shapeLoop attrib shapes (fold addVertex (take ?n cvs) st)
        = Inr (fold addVertex (drop ?n cvs) (fold addVertex (take ?n cvs) st))"
      using c2 Cons.IH by blast
    moreover have "fold addVertex (drop ?n cvs) (fold addVertex (take ?n cvs) st) = st'"
      using c(2) by (metis append_take_drop_id fold_append comp_apply)
    ultimately show "shapeLoop attrib (shape # shapes) st = Inr st'" by simp
  qed
qed

lemma loadModel_Inr:
  assumes "loadModel ok attrib shapes = Inr mesh"
  shows "\<exists>cvs m. map (makeVertex attrib) (faceCorners shapes) = map Inr cvs
           \<and> deduplicated cvs (vertices mesh, indices mesh, m)"
proof -
  from assms obtain vs ix m where
    s: "shapeLoop attrib shapes ([], [], Map.empty) = Inr (vs, ix, m)"
    and mesh: "mesh = \<lparr>vertices = vs, indices = ix\<rparr>"
    by (auto simp: loadModel_def split: if_splits sum.splits)
  from s obtain cvs where c: "map (makeVertex attrib) (faceCorners shapes) = map Inr cvs"
    "(vs, ix, m) = fold addVertex cvs ([], [], Map.empty)"
    using shapeLoop_Inr_iff by blast
  have "deduplicated cvs (vs, ix, m)"
    using deduplicated_fold [OF deduplicated_start, of cvs] c(2) by simp
  with c(1) mesh show ?thesis by auto
qed

lemma loadModel_returns:
  "(\<exists>mesh. loadModel ok attrib shapes = Inr mesh) \<longleftrightarrow>
     ok \<and> (\<forall>c \<in> set (faceCorners shapes). \<exists>v. makeVertex attrib c = Inr v)"
proof
  assume "\<exists>mesh. loadModel ok attrib shapes = Inr mesh"
  then obtain mesh where m: "loadModel ok attrib shapes = Inr mesh" by blast
  then have ok by (auto simp: loadModel_def split: if_splits)
  moreover from loadModel_Inr [OF m] obtain cvs where
    c: "map (makeVertex attrib) (faceCorners shapes) = map Inr cvs" by blast
  have "\<forall>c \<in> set (faceCorners shapes). \<exists>v. makeVertex attrib c = Inr v"
  proof
    fix x assume "x \<in> set (faceCorners shapes)"
    then have "makeVertex attrib x \<in> set (map Inr cvs)" using c by (metis image_eqI set_map)
    then show "\<exists>v. makeVertex attrib x = Inr v" by auto
  qed
  ultimately show "ok \<and> (\<forall>c \<in> set (faceCorners shapes). \<exists>v. makeVertex attrib c = Inr v)" by simp
next
  assume a: "ok \<and> (\<forall>c \<in> set (faceCorners shapes). \<exists>v. makeVertex attrib c = Inr v)"
  then have "\<forall>c \<in> set (faceCorners shapes). makeVertex attrib c = Inr (projr (makeVertex attrib c))"
    by auto
  then have "map (makeVertex attrib) (faceCorners shapes)
      = map Inr (map (\<lambda>c. projr (makeVertex attrib c)) (faceCorners shapes))"
    by simp
  then obtain st where "shapeLoop attrib shapes ([], [], Map.empty) = Inr st"
    using shapeLoop_Inr_iff by blast
  with a show "\<exists>mesh. loadModel ok attrib shapes = Inr mesh"
    by (auto simp: loadModel_def split: prod.splits)
qed

text \<open>
  Claim C9. For a model that loads, with \<open>cvs\<close> the vertices of its face corners in
  loading order: two corners with equal vertices get the same output index, and the
  output vertex list has exactly as many entries as there are different vertices among
  the corners (it lists each of them once).
\<close>

theorem loadModel_deduplicates:
  assumes "loadModel ok attrib shapes = Inr mesh"
  shows "\<exists>cvs. map (makeVertex attrib) (faceCorners shapes) = map Inr cvs
           \<and> (\<forall>i < length cvs. \<forall>j < length cvs.
                 cvs ! i = cvs ! j \<longrightarrow> indices mesh ! i = indices mesh ! j)
           \<and> length (vertices mesh) = card (set cvs)
           \<and> distinct (vertices mesh) \<and> set (vertices mesh) = set cvs"
proof -
  from loadModel_Inr [OF assms] obtain cvs m where
    c: "map (makeVertex attrib) (faceCorners shapes) = map Inr cvs"
    and d: "deduplicated cvs (vertices mesh, indices mesh, m)" by blast
  from d have dist: "distinct (vertices mesh)" and s: "set (vertices mesh) = set cvs"
    and ix: "indices mesh = map (\<lambda>v. the (m v)) cvs"
    by (auto simp: deduplicated_def)
  have "length (vertices mesh) = card (set cvs)"
    using distinct_card [OF dist] s by simp
  moreover have "\<forall>i < length cvs. \<forall>j < length cvs.
                 cvs ! i = cvs ! j \<longrightarrow> indices mesh ! i = indices mesh ! j"
    by (simp add: ix)
  ultimately show ?thesis using c dist s by blast
qed

text \<open>
  Claim C10. For a model that loads, every output index is less than the number of output
  vertices, and there are as many output indices as face index references in all shapes.
\<close>

theorem loadModel_well_formed:
  assumes "loadModel ok attrib shapes = Inr mesh"
  shows "(\<forall>k \<in> set (indices mesh). unat k < length (vertices mesh))
       \<and> length (indices mesh) = length (faceCorners shapes)
       \<and> length (indices mesh) = (\<Sum>shape \<leftarrow> shapes. length (mesh_indices shape))"
proof -
  from loadModel_Inr [OF assms] obtain cvs m where
    c: "map (makeVertex attrib) (faceCorners shapes) = map Inr cvs"
    and d: "deduplicated cvs (vertices mesh, indices mesh, m)" by blast
  from d have s: "set (vertices mesh) = set cvs" and dm: "dom m = set (vertices mesh)"
    and r: "\<And>v i. m v = Some i \<Longrightarrow> unat i < length (vertices mesh)"
    and ix: "indices mesh = map (\<lambda>v. the (m v)) cvs"
    by (auto simp: deduplicated_def)
  have "\<forall>k \<in> set (indices mesh). unat k < length (vertices mesh)"
  proof
    fix k assume "k \<in> set (indices mesh)"
    then obtain v where v: "v \<in> set cvs" "k = the (m v)" unfolding ix by auto
    then have "v \<in> dom m" using s dm by simp
    then obtain i where "m v = Some i" by auto
    with v r show "unat k < length (vertices mesh)" by simp
  qed
  moreover have l: "length (indices mesh) = length (faceCorners shapes)"
    using ix c by (metis length_map)
  moreover have "length (faceCorners shapes) = (\<Sum>shape \<leftarrow> shapes. length (mesh_indices shape))"
    by (simp add: faceCorners_def length_concat comp_def)
  ultimately show ?thesis by simp
qed

lemma loadModel_index_denotes:
  assumes "loadModel ok attrib shapes = Inr mesh"
    and "length (vertices mesh) \<le> 2 ^ 32"
    and "i < length (faceCorners shapes)"
  shows "makeVertex attrib (faceCorners shapes ! i) = Inr (vertices mesh ! unat (indices mesh ! i))"
proof -
  from loadModel_Inr [OF assms(1)] obtain cvs m where
    c: "map (makeVertex attrib) (faceCorners shapes) = map Inr cvs"
    and d: "deduplicated cvs (vertices mesh, indices mesh, m)" by blast
  from d have s: "set (vertices mesh) = set cvs" and dm: "dom m = set (vertices mesh)"
    and r: "\<And>v k. m v = Some k \<Longrightarrow> length (vertices mesh) \<le> 2 ^ 32 \<longrightarrow> vertices mesh ! unat k = v"
    and ix: "indices mesh = map (\<lambda>v. the (m v)) cvs"
    by (auto simp: deduplicated_def)
  have l: "length cvs = length (faceCorners shapes)" using c by (metis length_map)
  then have "cvs ! i \<in> dom m" using assms(3) s dm by simp
  then obtain k where k: "m (cvs ! i) = Some k" by auto
  have "indices mesh ! i = k" using k l assms(3) by (simp add: ix)
  with r [OF k] assms(2) have "vertices mesh ! unat (indices mesh ! i) = cvs ! i" by simp
  moreover have "makeVertex attrib (faceCorners shapes ! i) = Inr (cvs ! i)"
    using arg_cong [OF c, of "\<lambda>xs. xs ! i"] l assms(3) by simp
  ultimately show ?thesis by simp
qed

lemma makeVertex_square:
  "makeVertex squareAttrib (corner 0) = Inr (squareVertex 0 0)"
  "makeVertex squareAttrib (corner 1) = Inr (squareVertex 1 0)"
  "makeVertex squareAttrib (corner 2) = Inr (squareVertex 0 1)"
  "makeVertex squareAttrib (corner 3) = Inr (squareVertex 1 1)"
  by (simp_all add: makeVertex_def vectorAt_def squareAttrib_def corner_def squareVertex_def)

lemma loadModel_square: "loadModel True squareAttrib squareShapes = Inr squareMesh"
  by (simp add: loadModel_def squareShapes_def makeVertex_square addVertex_def subscript_def
      squareVertex_def squareMesh_def)

theorem loadModel_deduplicates_witness:
  "loadModel True squareAttrib squareShapes = Inr squareMesh
   \<and> map (makeVertex squareAttrib) (faceCorners squareShapes) = map Inr squareCorners
   \<and> squareCorners ! 2 = squareCorners ! 3
   \<and> indices squareMesh ! 2 = indices squareMesh ! 3
   \<and> length squareCorners = 6
   \<and> card (set squareCorners) = 4
   \<and> length (vertices squareMesh) = 4"
proof -
  have l: "loadModel True squareAttrib squareShapes = Inr squareMesh" by (rule loadModel_square)
  have fc: "map (makeVertex squareAttrib) (faceCorners squareShapes) = map Inr squareCorners"
    by (simp add: faceCorners_def squareShapes_def makeVertex_square squareCorners_def)
  from loadModel_deduplicates [OF l] obtain cvs where
    c: "map (makeVertex squareAttrib) (faceCorners squareShapes) = map Inr cvs"
    and same: "\<forall>i < length cvs. \<forall>j < length cvs.
                 cvs ! i = cvs ! j \<longrightarrow> indices squareMesh ! i = indices squareMesh ! j"
    and n: "length (vertices squareMesh) = card (set cvs)" by blast
  from c fc have cvs: "cvs = squareCorners" by (simp add: inj_map_eq_map)
  have len: "length squareCorners = 6" and eq: "squareCorners ! 2 = squareCorners ! 3"
    by (simp_all add: squareCorners_def)
  from same have "indices squareMesh ! 2 = indices squareMesh ! 3"
    unfolding cvs using len eq by simp
  moreover have "length (vertices squareMesh) = 4" by (simp add: squareMesh_def)
  ultimately show ?thesis using l fc len eq n cvs by simp
qed

theorem loadModel_well_formed_witness:
  "loadModel True squareAttrib squareShapes = Inr squareMesh
   \<and> indices squareMesh = [0, 1, 2, 2, 1, 3]
   \<and> length (vertices squareMesh) = 4
   \<and> unat (indices squareMesh ! 5) < length (vertices squareMesh)
   \<and> length (indices squareMesh) = length (faceCorners squareShapes)
   \<and> length (faceCorners squareShapes) = 6"
proof -
  have l: "loadModel True squareAttrib squareShapes = Inr squareMesh" by (rule loadModel_square)
  have "indices squareMesh ! 5 \<in> set (indices squareMesh)" by (simp add: squareMesh_def)
  with loadModel_well_formed [OF l]
  have "unat (indices squareMesh ! 5) < length (vertices squareMesh)"
    and "length (indices squareMesh) = length (faceCorners squareShapes)" by blast+
  moreover have "indices squareMesh = [0, 1, 2, 2, 1, 3]" "length (vertices squareMesh) = 4"
    by (simp_all add: squareMesh_def)
  ultimately show ?thesis using l by simp
qed

end
